theory Spec2Isabelle
  imports Main "HOL-Library.Word"
begin

unbundle bit_operations_syntax

section \<open>json2msgpack: the frame codec and the streaming pipelines\<close>

text \<open>
  The repository frames each msgpack-encoded record as a msgpack \<open>bin\<close> object: a tag byte
  \<open>0xC4\<close>, \<open>0xC5\<close> or \<open>0xC6\<close>, a big-endian length of 1, 2 or 4 bytes, and the payload.
  This theory embeds \<open>writeMsgpackBinArrayHeader\<close>, \<open>DecodeMsgpackBinArrayHeader\<close>,
  \<open>jsonToMsgp\<close> and the two \<open>processFile\<close> loops, and proves the properties of the
  specification about them.
\<close>

subsection \<open>Bytes, errors and panics\<close>

type_synonym byte = "8 word"
type_synonym uint16 = "16 word"
type_synonym uint32 = "32 word"
type_synonym int64 = "64 word"

text \<open>
  Go's \<open>error\<close> values: \<open>io.EOF\<close>, the error that \<open>DecodeMsgpackBinArrayHeader\<close> builds
  with \<open>fmt.Errorf\<close> (it carries \<open>lenp\<close>), and any other error of the runtime or of the
  external codec.
\<close>

datatype error = EOF | TooSmall int | OtherError string

text \<open>
  A panic unwinds the whole run. The run-time panics of an index or slice expression out of
  range are kept apart from the panics the program raises itself with \<open>panic(fmt.Errorf(...))\<close>;
  those carry the values the message is formatted from.
\<close>

datatype panic =
    IndexOutOfRange
  | SliceOutOfRange
  | DecodePanic int64 string error
  | EncodePanic int64 string error
  | TooLongPanic int64 string int
  | HeaderWritePanic int64 string string int error
  | CopyPanic int64 string string error
  | UnexpectedType

text \<open>\<open>p[i]\<close> and \<open>p[lo:hi]\<close> with Go's bounds checks (the capacity of a slice is taken
  to be its length, the least it can be).\<close>

definition index_expr :: "byte list \<Rightarrow> nat \<Rightarrow> panic + byte" where
  "index_expr p i = (if i < length p then Inr (p ! i) else Inl IndexOutOfRange)"

definition slice_expr :: "byte list \<Rightarrow> nat \<Rightarrow> nat \<Rightarrow> panic + byte list" where
  "slice_expr p lo hi =
     (if lo \<le> hi \<and> hi \<le> length p then Inr (take (hi - lo) (drop lo p))
      else Inl SliceOutOfRange)"

subsection \<open>\<open>encoding/binary\<close>: big-endian fields\<close>

text \<open>
  \<open>binary.BigEndian.PutUint16(by[1:3], v)\<close> stores through the sub-slice into the array
  \<open>by\<close>; the model updates the array at the offset of the sub-slice.
\<close>

definition PutUint16 :: "byte list \<Rightarrow> nat \<Rightarrow> uint16 \<Rightarrow> byte list" where
  "PutUint16 b off v = (b[off := ucast (drop_bit 8 v)])[off + 1 := ucast v]"

definition PutUint32 :: "byte list \<Rightarrow> nat \<Rightarrow> uint32 \<Rightarrow> byte list" where
  "PutUint32 b off v =
     (((b[off := ucast (drop_bit 24 v)])[off + 1 := ucast (drop_bit 16 v)])
         [off + 2 := ucast (drop_bit 8 v)])[off + 3 := ucast v]"

definition Uint16 :: "byte list \<Rightarrow> panic + uint16" where
  "Uint16 b =
     (if length b < 2 then Inl IndexOutOfRange
      else Inr ((ucast (b ! 1) :: uint16) OR push_bit 8 (ucast (b ! 0))))"

definition Uint32 :: "byte list \<Rightarrow> panic + uint32" where
  "Uint32 b =
     (if length b < 4 then Inl IndexOutOfRange
      else Inr ((ucast (b ! 3) :: uint32) OR push_bit 8 (ucast (b ! 2))
                 OR push_bit 16 (ucast (b ! 1)) OR push_bit 24 (ucast (b ! 0))))"

subsection \<open>The output file\<close>

text \<open>
  \<open>cfg.Output\<close> is an \<open>*os.File\<close>. Its state is the bytes written so far. Whether a
  \<open>Write\<close> fails is not decided by the program: it is a parameter \<open>fw\<close>, which, from the
  bytes written so far and the chunk to write, answers \<open>None\<close> (the whole chunk is written,
  no error) or \<open>Some (n, e)\<close> (the write stops with error \<open>e\<close> after \<open>n\<close> bytes of the
  chunk). \<open>os.File.Write\<close> returns a non-nil error whenever it writes less than the chunk.
\<close>

type_synonym file_writes = "byte list \<Rightarrow> byte list \<Rightarrow> (nat \<times> error) option"

definition Write :: "file_writes \<Rightarrow> byte list \<Rightarrow> byte list \<Rightarrow> byte list \<times> error option" where
  "Write fw out p =
     (case fw out p of
        None \<Rightarrow> (out @ p, None)
      | Some (n, e) \<Rightarrow> (out @ take n p, Some e))"

definition always_writes :: file_writes where
  "always_writes out p = None"

subsection \<open>\<open>writeMsgpackBinArrayHeader\<close>\<close>

definition writeMsgpackBinArrayHeader ::
  "file_writes \<Rightarrow> byte list \<Rightarrow> uint32 \<Rightarrow> byte list \<times> error option" where
  "writeMsgpackBinArrayHeader fw w l =
     (let by = replicate 8 (0 :: byte);
          (by, nBytesAdded) =
             (if l < 256 then
                ((by[0 := 0xc4])[1 := ucast l], 2)
              else if l < 65536 then
                (PutUint16 (by[0 := 0xc5]) 1 (ucast l), 3)
              else
                (PutUint32 (by[0 := 0xc6]) 1 l, 5))
      in Write fw w (take nBytesAdded by))"

text \<open>The header of a payload of \<open>l\<close> bytes: what the function writes to an empty
  file that accepts every write.\<close>

definition header :: "uint32 \<Rightarrow> byte list" where
  "header l = fst (writeMsgpackBinArrayHeader always_writes [] l)"

subsection \<open>\<open>DecodeMsgpackBinArrayHeader\<close>\<close>

text \<open>
  The result is the tuple of the named results \<open>(headerSize, payloadSize, totalFrameSize,
  err)\<close>, or the run-time panic of an access out of range. Go's \<open>int\<close> is modelled by
  \<open>int\<close>: \<open>jsonToMsgp\<close> of json2msgpack, which writes the frames, compares an \<open>int\<close>
  with the constant 4294967295, so that program only compiles where \<open>int\<close> has 64 bits,
  and with 64 bits no value computed here leaves the range of \<open>int\<close>
  (lemma \<open>DecodeMsgpackBinArrayHeader_range\<close>).
\<close>

definition DecodeMsgpackBinArrayHeader ::
  "byte list \<Rightarrow> panic + (int \<times> int \<times> int \<times> error option)" where
  "DecodeMsgpackBinArrayHeader p =
     (let lenp = int (length p) in
      case index_expr p 0 of
        Inl pn \<Rightarrow> Inl pn
      | Inr tag \<Rightarrow>
          if tag = 0xc4 then
            (if lenp < 2 then Inr (0, 0, 0, Some (TooSmall lenp))
             else case index_expr p 1 of
                    Inl pn \<Rightarrow> Inl pn
                  | Inr b \<Rightarrow> Inr (2, uint b, 2 + uint b, None))
          else if tag = 0xc5 then
            (if lenp < 3 then Inr (0, 0, 0, Some (TooSmall lenp))
             else case slice_expr p 1 3 of
                    Inl pn \<Rightarrow> Inl pn
                  | Inr s \<Rightarrow>
                      (case Uint16 s of
                         Inl pn \<Rightarrow> Inl pn
                       | Inr v \<Rightarrow> Inr (3, uint v, 3 + uint v, None)))
          else if tag = 0xc6 then
            (if lenp < 5 then Inr (0, 0, 0, Some (TooSmall lenp))
             else case slice_expr p 1 5 of
                    Inl pn \<Rightarrow> Inl pn
                  | Inr s \<Rightarrow>
                      (case Uint32 s of
                         Inl pn \<Rightarrow> Inl pn
                       | Inr v \<Rightarrow> Inr (5, uint v, 5 + uint v, None)))
          else Inr (0, 0, 0 + 0, None))"

subsection \<open>The external codec\<close>

text \<open>
  The JSON and msgpack codec is the library \<open>github.com/ugorji/go/codec\<close>, not code of
  this repository. The value it decodes into an \<open>interface{}\<close> is one of the shapes below;
  the programs only ask whether it is a \<open>[]byte\<close>. The three uses of the codec are
  parameters of the model: decoding one line of JSON, encoding a value as msgpack into
  the buffer (the bytes it appended and its error), and decoding one msgpack object.
\<close>

datatype iface =
    VNil
  | VBool bool
  | VInt int
  | VString string
  | VBytes "byte list"
  | VArray "iface list"
  | VMap "(string \<times> iface) list"

type_synonym json_decode = "byte list \<Rightarrow> error + iface"
type_synonym msgpack_encode = "iface \<Rightarrow> byte list \<times> error option"
type_synonym msgpack_decode = "byte list \<Rightarrow> error + iface"

subsection \<open>The input file and \<open>bufio.Reader.ReadBytes\<close>\<close>

text \<open>
  An input file delivers some bytes and then its first error: \<open>io.EOF\<close> at the regular
  end, or a read error. \<open>ReadBytes(delim)\<close> returns the bytes up to and including the
  first \<open>delim\<close>; if the error comes first, it returns the bytes read before the error
  and the error. The loop of \<open>processFile\<close> stops at the first error it sees, so what an
  input would deliver after that error plays no part.
\<close>

record input_file =
  content :: "byte list"
  read_error :: error

definition ReadBytes :: "input_file \<Rightarrow> byte \<Rightarrow> (byte list \<times> error option) \<times> input_file" where
  "ReadBytes bufIn delim =
     (case dropWhile (\<lambda>b. b \<noteq> delim) (content bufIn) of
        [] \<Rightarrow> ((content bufIn, Some (read_error bufIn)), bufIn\<lparr>content := []\<rparr>)
      | d # rest \<Rightarrow>
          ((takeWhile (\<lambda>b. b \<noteq> delim) (content bufIn) @ [d], None), bufIn\<lparr>content := rest\<rparr>))"

subsection \<open>json2msgpack: \<open>jsonToMsgp\<close>, \<open>processFile\<close> and \<open>main\<close>\<close>

record JsonMsgpConfig =
  InputPath :: string
  OutputPath :: string
  Input :: input_file
  Output :: "byte list"

text \<open>
  \<open>io.Copy(cfg.Output, buf)\<close> calls \<open>buf.WriteTo\<close>: an empty buffer writes nothing;
  otherwise the unread bytes go to the file in one \<open>Write\<close>, the buffer drops the \<open>m\<close>
  bytes that were written, and it is reset when no error came back. The count \<open>m\<close> that
  \<open>Write\<close> returns is the growth of the file.
\<close>

definition io_Copy ::
  "file_writes \<Rightarrow> byte list \<Rightarrow> byte list \<Rightarrow> byte list \<times> byte list \<times> error option" where
  "io_Copy fw dst buf =
     (if length buf > 0 then
        (case Write fw dst buf of
           (dst', Some e) \<Rightarrow> (dst', drop (length dst' - length dst) buf, Some e)
         | (dst', None) \<Rightarrow> (dst', [], None))
      else (dst, [], None))"

text \<open>
  The result of \<open>jsonToMsgp\<close> is its status or its panic, with the configuration (whose
  \<open>Output\<close> holds what has been written) and the buffer as the call leaves them.
\<close>

definition jsonToMsgp ::
  "file_writes \<Rightarrow> json_decode \<Rightarrow> msgpack_encode \<Rightarrow>
   JsonMsgpConfig \<Rightarrow> byte list \<Rightarrow> byte list \<Rightarrow> int64 \<Rightarrow>
   (panic + int) \<times> JsonMsgpConfig \<times> byte list" where
  "jsonToMsgp fw jdec menc cfg buf js lineNum =
     (case jdec js of
        Inl err \<Rightarrow> (Inl (DecodePanic lineNum (InputPath cfg) err), cfg, buf)
      | Inr iface \<Rightarrow>
          (case menc iface of
             (bs, Some err) \<Rightarrow> (Inl (EncodePanic lineNum (InputPath cfg) err), cfg, buf @ bs)
           | (bs, None) \<Rightarrow>
                (let buf = buf @ bs; blen = int (length buf) in
                 if blen > 4294967295 then
                   (Inl (TooLongPanic lineNum (InputPath cfg) blen), cfg, buf)
                 else
                   (case writeMsgpackBinArrayHeader fw (Output cfg) (word_of_int blen) of
                      (out, Some err) \<Rightarrow>
                        (Inl (HeaderWritePanic lineNum (InputPath cfg) (OutputPath cfg) blen err),
                         cfg\<lparr>Output := out\<rparr>, buf)
                    | (out, None) \<Rightarrow>
                        (case io_Copy fw out buf of
                           (out, buf, Some err) \<Rightarrow>
                             (Inl (CopyPanic lineNum (InputPath cfg) (OutputPath cfg) err),
                              cfg\<lparr>Output := out\<rparr>, buf)
                         | (out, buf, None) \<Rightarrow> (Inr 0, cfg\<lparr>Output := out\<rparr>, buf))))))"

text \<open>The delimiter \<open>'\\n'\<close> that \<open>processFile\<close> passes to \<open>ReadBytes\<close>.\<close>

definition newline :: byte where
  "newline = 0x0a"

text \<open>
  The \<open>for\<close> loop of \<open>processFile\<close>: its state is the reader \<open>bufIn\<close>, the buffer, the
  line number (an \<open>int64\<close>) and the configuration with the output written so far. It
  recurs only after a read that found a newline, which shortens the input: the loop
  terminates on every input.
\<close>

function processFile_loop ::
  "file_writes \<Rightarrow> json_decode \<Rightarrow> msgpack_encode \<Rightarrow>
   JsonMsgpConfig \<Rightarrow> input_file \<Rightarrow> byte list \<Rightarrow> int64 \<Rightarrow> (panic + int) \<times> JsonMsgpConfig" where
  "processFile_loop fw jdec menc cfg bufIn buf lineNum =
     (case ReadBytes bufIn newline of ((lastLine, err), bufIn) \<Rightarrow>
        if err \<noteq> None \<and> err \<noteq> Some EOF then (Inr 2, cfg)
        else if err = Some EOF \<and> length lastLine = 0 then (Inr 0, cfg)
        else
          (case jsonToMsgp fw jdec menc cfg buf lastLine lineNum of
             (Inl pn, cfg, buf) \<Rightarrow> (Inl pn, cfg)
           | (Inr status, cfg, buf) \<Rightarrow>
               if status > 0 then (Inr status, cfg)
               else
                 (let buf = []; lineNum = lineNum + 1 in
                  if err = Some EOF then (Inr 0, cfg)
                  else processFile_loop fw jdec menc cfg bufIn buf lineNum)))"
  by pat_completeness auto
termination
proof (relation "measure (\<lambda>(fw, jdec, menc, cfg, bufIn, buf, lineNum). length (content bufIn))")
  show "wf (measure (\<lambda>(fw, jdec, menc, cfg, bufIn, buf, lineNum). length (content bufIn)))"
    by simp
next
  fix fw :: file_writes and jdec :: json_decode and menc :: msgpack_encode
    and cfg cfg' :: JsonMsgpConfig and bufIn bufIn' :: input_file and buf buf' buf'' :: "byte list"
    and lineNum lineNum' :: int64 and x lastLine err y status z
  assume r: "(x, bufIn') = ReadBytes bufIn newline" "(lastLine, err) = x"
    and c: "\<not> (err \<noteq> None \<and> err \<noteq> Some EOF)" "err \<noteq> Some EOF"
  from c have "err = None" by blast
  with r have "ReadBytes bufIn newline = ((lastLine, None), bufIn')" by simp
  then obtain d where "dropWhile (\<lambda>b. b \<noteq> newline) (content bufIn) = d # content bufIn'"
    by (auto simp: ReadBytes_def split: list.splits)
  then have "Suc (length (content bufIn')) \<le> length (content bufIn)"
    using length_dropWhile_le [of "\<lambda>b. b \<noteq> newline" "content bufIn"] by simp
  then show "((fw, jdec, menc, cfg', bufIn', buf'', lineNum'), fw, jdec, menc, cfg, bufIn, buf, lineNum)
        \<in> measure (\<lambda>(fw, jdec, menc, cfg, bufIn, buf, lineNum). length (content bufIn))"
    by simp
qed

declare processFile_loop.simps [simp del]

definition processFile ::
  "file_writes \<Rightarrow> json_decode \<Rightarrow> msgpack_encode \<Rightarrow> JsonMsgpConfig \<Rightarrow> (panic + int) \<times> JsonMsgpConfig" where
  "processFile fw jdec menc cfg = processFile_loop fw jdec menc cfg (Input cfg) [] 1"

text \<open>
  How a process ends: \<open>os.Exit(status)\<close>, or a panic that nothing recovers.
  \<open>main\<close> parses the flags and validates the configuration against the file system; the
  model takes the result of \<open>ValidateConfig\<close> as it is, an error or the configuration with
  its files opened. \<open>log.Fatalf\<close> exits with status 1.
\<close>

datatype process_end = Exit int | Abort panic

definition main ::
  "file_writes \<Rightarrow> json_decode \<Rightarrow> msgpack_encode \<Rightarrow> error + JsonMsgpConfig \<Rightarrow> process_end" where
  "main fw jdec menc ValidateConfig =
     (case ValidateConfig of
        Inl err \<Rightarrow> Exit 1
      | Inr cfg \<Rightarrow>
          (case processFile fw jdec menc cfg of
             (Inl pn, cfg) \<Rightarrow> Abort pn
           | (Inr status, cfg) \<Rightarrow> Exit status))"

subsection \<open>msgpackParseBench: \<open>processFile\<close> and \<open>main\<close>\<close>

text \<open>
  \<open>decoder.Decode(&r)\<close> reads the next msgpack object from the input stream. The stream
  and the decoder over it are a state \<open>'s\<close>; a call returns the decoded value or an
  error, and the state after it. \<open>val[headerSz:]\<close> is a slice expression with its bounds
  check.
\<close>

type_synonym 's stream_decode = "'s \<Rightarrow> (error + iface) \<times> 's"

definition slice_from :: "byte list \<Rightarrow> int \<Rightarrow> panic + byte list" where
  "slice_from p lo =
     (if 0 \<le> lo \<and> lo \<le> int (length p) then Inr (drop (nat lo) p) else Inl SliceOutOfRange)"

text \<open>
  The \<open>for\<close> loop of \<open>processFile\<close>, with the frame count \<open>k\<close>; it yields the count at
  the \<open>break\<close> of the loop, or the panic. The two \<open>break\<close> statements inside the
  \<open>switch\<close> leave the \<open>switch\<close>, not the loop, and the \<open>err\<close> they test is the one
  declared inside the \<open>case\<close>: the loop goes on with the next object and \<open>k\<close> unchanged.
  The loop ends only when the stream decoder returns an error, so it is a partial
  function: \<open>None\<close> is a run that never ends.
\<close>

partial_function (option) msgpackParseBench_loop ::
  "'s stream_decode \<Rightarrow> msgpack_decode \<Rightarrow> 's \<Rightarrow> int \<Rightarrow> (panic + int) option" where
  "msgpackParseBench_loop decoder decodeSlice st k =
     (case decoder st of
        (Inl err, st) \<Rightarrow> Some (Inr k)
      | (Inr r, st) \<Rightarrow>
          (case r of
             VBytes val \<Rightarrow>
               (case DecodeMsgpackBinArrayHeader val of
                  Inl pn \<Rightarrow> Some (Inl pn)
                | Inr (headerSz, payloadSz, totalSz, err) \<Rightarrow>
                    if err \<noteq> None then msgpackParseBench_loop decoder decodeSlice st k
                    else
                      (case slice_from val headerSz of
                         Inl pn \<Rightarrow> Some (Inl pn)
                       | Inr payload \<Rightarrow>
                           (case decodeSlice payload of
                              Inl err \<Rightarrow> msgpackParseBench_loop decoder decodeSlice st k
                            | Inr s \<Rightarrow> msgpackParseBench_loop decoder decodeSlice st (k + 1))))
           | _ \<Rightarrow> Some (Inl UnexpectedType)))"

text \<open>
  \<open>processFile\<close> prints the count and returns 0: the result is the status with the count
  printed, or the panic.
\<close>

definition msgpackParseBench_processFile ::
  "'s stream_decode \<Rightarrow> msgpack_decode \<Rightarrow> 's \<Rightarrow> (panic + int \<times> int) option" where
  "msgpackParseBench_processFile decoder decodeSlice st =
     (case msgpackParseBench_loop decoder decodeSlice st 0 of
        None \<Rightarrow> None
      | Some (Inl pn) \<Rightarrow> Some (Inl pn)
      | Some (Inr k) \<Rightarrow> Some (Inr (0, k)))"

definition msgpackParseBench_main ::
  "'s stream_decode \<Rightarrow> msgpack_decode \<Rightarrow> error + 's \<Rightarrow> process_end option" where
  "msgpackParseBench_main decoder decodeSlice ValidateConfig =
     (case ValidateConfig of
        Inl err \<Rightarrow> Some (Exit 1)
      | Inr st \<Rightarrow>
          (case msgpackParseBench_processFile decoder decodeSlice st of
             None \<Rightarrow> None
           | Some (Inl pn) \<Rightarrow> Some (Abort pn)
           | Some (Inr (status, k)) \<Rightarrow> Some (Exit status)))"

subsection \<open>Notions used to state the properties of the pipelines\<close>

text \<open>
  Converting the records \<open>js\<close> of a list one after the other, each with an empty buffer
  and the next line number, up to the first panic.
\<close>

fun convert_records ::
  "file_writes \<Rightarrow> json_decode \<Rightarrow> msgpack_encode \<Rightarrow>
   JsonMsgpConfig \<Rightarrow> byte list list \<Rightarrow> int64 \<Rightarrow> panic option \<times> JsonMsgpConfig" where
  "convert_records fw jdec menc cfg [] lineNum = (None, cfg)"
| "convert_records fw jdec menc cfg (js # rest) lineNum =
     (case jsonToMsgp fw jdec menc cfg [] js lineNum of
        (Inl pn, cfg', buf') \<Rightarrow> (Some pn, cfg')
      | (Inr status, cfg', buf') \<Rightarrow> convert_records fw jdec menc cfg' rest (lineNum + 1))"

text \<open>A record converts when the codec decodes it and encodes the value into a payload
  of at most \<open>2^32 - 1\<close> bytes; its frame is then the header of the payload's length and
  the payload.\<close>

definition converts :: "json_decode \<Rightarrow> msgpack_encode \<Rightarrow> byte list \<Rightarrow> bool" where
  "converts jdec menc js =
     (case jdec js of
        Inl err \<Rightarrow> False
      | Inr iface \<Rightarrow>
          (case menc iface of
             (bs, Some err) \<Rightarrow> False
           | (bs, None) \<Rightarrow> int (length bs) \<le> 4294967295))"

definition frame_of :: "json_decode \<Rightarrow> msgpack_encode \<Rightarrow> byte list \<Rightarrow> byte list" where
  "frame_of jdec menc js =
     (case jdec js of
        Inl err \<Rightarrow> []
      | Inr iface \<Rightarrow> (case menc iface of (bs, err) \<Rightarrow> header (of_nat (length bs)) @ bs))"

text \<open>The input made of the lines \<open>ls\<close>, each followed by a newline.\<close>

definition terminated_lines :: "byte list list \<Rightarrow> byte list" where
  "terminated_lines ls = concat (map (\<lambda>l. l @ [newline]) ls)"

text \<open>
  The objects \<open>rs\<close> that the stream decoder returns from state \<open>st\<close> before its first
  error \<open>err\<close>.
\<close>

inductive stream_yields :: "'s stream_decode \<Rightarrow> 's \<Rightarrow> iface list \<Rightarrow> error \<Rightarrow> bool"
  for decoder :: "'s stream_decode" where
  stream_ends: "decoder st = (Inl err, st') \<Longrightarrow> stream_yields decoder st [] err"
| stream_next: "decoder st = (Inr r, st') \<Longrightarrow> stream_yields decoder st' rs err \<Longrightarrow>
     stream_yields decoder st (r # rs) err"

text \<open>
  The state \<open>st'\<close> in which the stream decoder is after it has returned the objects
  \<open>rs\<close> from state \<open>st\<close>.
\<close>

inductive stream_reaches :: "'s stream_decode \<Rightarrow> 's \<Rightarrow> iface list \<Rightarrow> 's \<Rightarrow> bool"
  for decoder :: "'s stream_decode" where
  reaches_here: "stream_reaches decoder st [] st"
| reaches_next: "decoder st = (Inr r, st1) \<Longrightarrow> stream_reaches decoder st1 rs st' \<Longrightarrow>
     stream_reaches decoder st (r # rs) st'"

text \<open>An object that \<open>processFile\<close> counts: a byte array whose payload, after the header
  that \<open>DecodeMsgpackBinArrayHeader\<close> finds, the codec decodes.\<close>

definition counted_frame :: "msgpack_decode \<Rightarrow> iface \<Rightarrow> bool" where
  "counted_frame decodeSlice r =
     (case r of
        VBytes val \<Rightarrow>
          (case DecodeMsgpackBinArrayHeader val of
             Inr (headerSz, payloadSz, totalSz, None) \<Rightarrow>
               (case slice_from val headerSz of
                  Inr payload \<Rightarrow> \<not> isl (decodeSlice payload)
                | Inl pn \<Rightarrow> False)
           | _ \<Rightarrow> False)
      | _ \<Rightarrow> False)"

text \<open>A stream given by the results of its successive \<open>Decode\<close> calls; past their end it
  returns \<open>io.EOF\<close>.\<close>

definition replay :: "(error + iface) list stream_decode" where
  "replay st = (case st of [] \<Rightarrow> (Inl EOF, []) | x # xs \<Rightarrow> (x, xs))"

section \<open>Properties of the frame codec\<close>

subsection \<open>Facts about the header bytes\<close>

lemma Write_always_writes: "Write always_writes out p = (out @ p, None)"
  by (simp add: Write_def always_writes_def)

lemma lt256: "(l :: uint32) < 256 \<longleftrightarrow> unat l < 256"
  by (simp add: word_less_nat_alt)

lemma lt65536: "(l :: uint32) < 65536 \<longleftrightarrow> unat l < 65536"
  by (simp add: word_less_nat_alt)

lemma unat_ucast_byte: "unat (ucast (w :: 'a::len word) :: byte) = unat w mod 256"
  by (simp add: unsigned_ucast_eq take_bit_eq_mod)

lemma unat_ucast_u16: "unat (ucast (w :: uint32) :: uint16) = unat w mod 65536"
  by (simp add: unsigned_ucast_eq take_bit_eq_mod)

lemma unat_drop_bit_div: "unat (drop_bit n (w :: 'a::len word)) = unat w div 2 ^ n"
proof -
  have "unat (drop_bit n w) = drop_bit n (unat w)" by (rule unat_drop_bit_eq)
  also have "\<dots> = unat w div 2 ^ n" by (rule drop_bit_eq_div)
  finally show ?thesis .
qed

lemma byte_eq_unat: "(a :: byte) = b \<longleftrightarrow> unat a = unat b"
  by (simp add: word_unat_eq_iff)

lemma writeHeader_small:
  "l < 256 \<Longrightarrow> writeMsgpackBinArrayHeader fw w l = Write fw w [0xc4, ucast l]"
  by (simp add: writeMsgpackBinArrayHeader_def Let_def numeral_eq_Suc)

lemma writeHeader_medium:
  "\<not> l < 256 \<Longrightarrow> l < 65536 \<Longrightarrow>
   writeMsgpackBinArrayHeader fw w l =
     Write fw w [0xc5, ucast (drop_bit 8 (ucast l :: uint16)), ucast (ucast l :: uint16)]"
  by (simp add: writeMsgpackBinArrayHeader_def Let_def PutUint16_def numeral_eq_Suc)

lemma writeHeader_large:
  "\<not> l < 256 \<Longrightarrow> \<not> l < 65536 \<Longrightarrow>
   writeMsgpackBinArrayHeader fw w l =
     Write fw w [0xc6, ucast (drop_bit 24 l), ucast (drop_bit 16 l), ucast (drop_bit 8 l), ucast l]"
  by (simp add: writeMsgpackBinArrayHeader_def Let_def PutUint32_def numeral_eq_Suc)

lemma writeHeader_header: "writeMsgpackBinArrayHeader fw w l = Write fw w (header l)"
proof -
  consider "l < 256" | "\<not> l < 256" "l < 65536" | "\<not> l < 256" "\<not> l < 65536" by blast
  then show ?thesis
  proof cases
    case 1 then show ?thesis
      by (simp add: header_def writeHeader_small Write_always_writes)
  next
    case 2 then show ?thesis
      by (simp add: header_def writeHeader_medium Write_always_writes)
  next
    case 3 then show ?thesis
      by (simp add: header_def writeHeader_large Write_always_writes)
  qed
qed

lemma header_small: "l < 256 \<Longrightarrow> header l = [0xc4, ucast l]"
  by (simp add: header_def writeHeader_small Write_always_writes)

lemma header_medium:
  "\<not> l < 256 \<Longrightarrow> l < 65536 \<Longrightarrow>
   header l = [0xc5, ucast (drop_bit 8 (ucast l :: uint16)), ucast (ucast l :: uint16)]"
  by (simp add: header_def writeHeader_medium Write_always_writes)

lemma header_large:
  "\<not> l < 256 \<Longrightarrow> \<not> l < 65536 \<Longrightarrow>
   header l = [0xc6, ucast (drop_bit 24 l), ucast (drop_bit 16 l), ucast (drop_bit 8 l), ucast l]"
  by (simp add: header_def writeHeader_large Write_always_writes)

text \<open>The bytes of the length field as numbers.\<close>

lemma low_byte: "(ucast (l :: uint32) :: byte) = of_nat (unat l mod 256)"
  by (simp only: byte_eq_unat unat_ucast_byte unat_of_nat) simp

lemma shifted_byte:
  "(ucast (drop_bit n (l :: uint32)) :: byte) = of_nat (unat l div 2 ^ n mod 256)"
  by (simp only: byte_eq_unat unat_ucast_byte unat_drop_bit_div unat_of_nat) simp

lemma low_byte_u16: "(ucast (ucast (l :: uint32) :: uint16) :: byte) = of_nat (unat l mod 256)"
  by (simp only: byte_eq_unat unat_ucast_byte unat_ucast_u16 unat_of_nat)
     (simp add: mod_mod_cancel)

lemma high_byte_u16:
  "l < 65536 \<Longrightarrow>
   (ucast (drop_bit 8 (ucast (l :: uint32) :: uint16)) :: byte) = of_nat (unat l div 256)"
  by (simp only: byte_eq_unat unat_ucast_byte unat_drop_bit_div unat_ucast_u16 unat_of_nat lt65536)
     simp

lemma top_byte:
  "(ucast (drop_bit 24 (l :: uint32)) :: byte) = of_nat (unat l div 2 ^ 24)"
proof -
  have "unat l < 2 ^ 32" using unsigned_less [of l] by simp
  then have "unat l div 2 ^ 24 < 256" by simp
  then show ?thesis by (simp only: shifted_byte mod_less)
qed

lemma unat_of_nat_u32: "L < 2 ^ 32 \<Longrightarrow> unat (of_nat L :: uint32) = L"
  by (simp add: unat_of_nat)

lemma header_of_nat_small:
  assumes "L < 256"
  shows "header (of_nat L) = [0xc4, of_nat L]"
proof -
  have u: "unat (of_nat L :: uint32) = L" using assms by (simp add: unat_of_nat_u32)
  then have "(of_nat L :: uint32) < 256" by (simp only: lt256 assms)
  then have "header (of_nat L) = [0xc4, ucast (of_nat L :: uint32)]" by (rule header_small)
  also have "(ucast (of_nat L :: uint32) :: byte) = of_nat L"
    using assms by (simp only: low_byte u mod_less)
  finally show ?thesis .
qed

lemma header_of_nat_medium:
  assumes "256 \<le> L" "L < 65536"
  shows "header (of_nat L) = [0xc5, of_nat (L div 256), of_nat (L mod 256)]"
proof -
  have u: "unat (of_nat L :: uint32) = L" using assms by (simp add: unat_of_nat_u32)
  have a: "\<not> (of_nat L :: uint32) < 256" using assms by (simp add: lt256 u)
  have b: "(of_nat L :: uint32) < 65536" using assms by (simp only: lt65536 u)
  show ?thesis
    by (simp only: header_medium [OF a b] low_byte_u16 high_byte_u16 [OF b] u)
qed

lemma header_of_nat_large:
  assumes "65536 \<le> L" "L < 2 ^ 32"
  shows "header (of_nat L) =
           [0xc6, of_nat (L div 2 ^ 24), of_nat (L div 2 ^ 16 mod 256),
            of_nat (L div 2 ^ 8 mod 256), of_nat (L mod 256)]"
proof -
  have u: "unat (of_nat L :: uint32) = L" using assms by (simp add: unat_of_nat_u32)
  have a: "\<not> (of_nat L :: uint32) < 256" using assms by (simp add: lt256 u)
  have b: "\<not> (of_nat L :: uint32) < 65536" using assms by (simp add: lt65536 u)
  have b3: "(ucast (drop_bit 24 (of_nat L :: uint32)) :: byte) = of_nat (L div 2 ^ 24)"
    by (simp only: top_byte u)
  have b2: "(ucast (drop_bit 16 (of_nat L :: uint32)) :: byte) = of_nat (L div 2 ^ 16 mod 256)"
    by (simp only: shifted_byte u)
  have b1: "(ucast (drop_bit 8 (of_nat L :: uint32)) :: byte) = of_nat (L div 2 ^ 8 mod 256)"
    by (simp only: shifted_byte u)
  have b0: "(ucast (of_nat L :: uint32) :: byte) = of_nat (L mod 256)"
    by (simp only: low_byte u)
  show ?thesis
    by (simp only: header_large [OF a b] b3 b2 b1 b0)
qed

lemma length_header:
  "length (header l) = (if l < 256 then 2 else if l < 65536 then 3 else 5)"
  by (simp add: header_small header_medium header_large)

lemma length_header_of_nat:
  assumes "L < 2 ^ 32"
  shows "length (header (of_nat L)) = (if L < 256 then 2 else if L < 65536 then 3 else 5)"
proof -
  have u: "unat (of_nat L :: uint32) = L" using assms by (simp add: unat_of_nat_u32)
  show ?thesis by (simp only: length_header lt256 lt65536 u)
qed

subsection \<open>Facts about the decoder\<close>

lemma Decode_empty: "DecodeMsgpackBinArrayHeader [] = Inl IndexOutOfRange"
  by (simp add: DecodeMsgpackBinArrayHeader_def index_expr_def)

lemma Decode_bin8:
  "DecodeMsgpackBinArrayHeader (0xc4 # b # rest) = Inr (2, uint b, 2 + uint b, None)"
  by (simp add: DecodeMsgpackBinArrayHeader_def index_expr_def)

lemma Decode_bin16:
  "DecodeMsgpackBinArrayHeader (0xc5 # b0 # b1 # rest) =
     Inr (3, uint ((ucast b1 :: uint16) OR push_bit 8 (ucast b0)),
          3 + uint ((ucast b1 :: uint16) OR push_bit 8 (ucast b0)), None)"
  by (simp add: DecodeMsgpackBinArrayHeader_def index_expr_def slice_expr_def Uint16_def)

lemma Decode_bin32:
  "DecodeMsgpackBinArrayHeader (0xc6 # b0 # b1 # b2 # b3 # rest) =
     Inr (5, uint ((ucast b3 :: uint32) OR push_bit 8 (ucast b2) OR push_bit 16 (ucast b1)
                     OR push_bit 24 (ucast b0)),
          5 + uint ((ucast b3 :: uint32) OR push_bit 8 (ucast b2) OR push_bit 16 (ucast b1)
                     OR push_bit 24 (ucast b0)), None)"
  by (simp add: DecodeMsgpackBinArrayHeader_def index_expr_def slice_expr_def Uint32_def numeral_eq_Suc)

lemma Decode_other:
  "tag \<noteq> 0xc4 \<Longrightarrow> tag \<noteq> 0xc5 \<Longrightarrow> tag \<noteq> 0xc6 \<Longrightarrow>
   DecodeMsgpackBinArrayHeader (tag # rest) = Inr (0, 0, 0, None)"
  by (simp add: DecodeMsgpackBinArrayHeader_def index_expr_def)

lemma Decode_short:
  "tag = 0xc4 \<and> length rest < 1 \<or> tag = 0xc5 \<and> length rest < 2 \<or> tag = 0xc6 \<and> length rest < 4 \<Longrightarrow>
   DecodeMsgpackBinArrayHeader (tag # rest) =
     Inr (0, 0, 0, Some (TooSmall (1 + int (length rest))))"
  by (auto simp add: DecodeMsgpackBinArrayHeader_def index_expr_def)

text \<open>Reading back the length field that \<open>PutUint16\<close> and \<open>PutUint32\<close> stored.\<close>

lemma uint_ucast_byte: 
  assumes "(l::uint32) < 256" shows "uint (ucast l :: byte) = uint l"
proof -
  have "unat l < 256" using assms by (simp only: lt256)
  then have "unat (ucast l :: byte) = unat l" by (simp only: unat_ucast_byte mod_less)
  then show ?thesis by (simp only: uint_nat)
qed

lemma uint_ucast_u16: 
  assumes "(l::uint32) < 65536" shows "uint (ucast l :: uint16) = uint l"
proof -
  have "unat l < 65536" using assms by (simp only: lt65536)
  then have "unat (ucast l :: uint16) = unat l" by (simp only: unat_ucast_u16 mod_less)
  then show ?thesis by (simp only: uint_nat)
qed

lemma Uint16_PutUint16:
  "(ucast (ucast (v :: uint16) :: byte) :: uint16)
     OR push_bit 8 (ucast (ucast (drop_bit 8 v) :: byte)) = v"
  by (rule bit_word_eqI) (auto simp: bit_simps)

lemma Uint32_PutUint32:
  "(ucast (ucast (l :: uint32) :: byte) :: uint32)
     OR push_bit 8 (ucast (ucast (drop_bit 8 l) :: byte))
     OR push_bit 16 (ucast (ucast (drop_bit 16 l) :: byte))
     OR push_bit 24 (ucast (ucast (drop_bit 24 l) :: byte)) = l"
  apply (rule bit_word_eqI)
  apply (auto simp: bit_simps not_less)
  subgoal for n
    by (cases "24 \<le> n") simp_all
  done

lemma Decode_header:
  "DecodeMsgpackBinArrayHeader (header l @ suffix) =
     Inr (int (length (header l)), uint l, int (length (header l)) + uint l, None)"
proof -
  consider "l < 256" | "\<not> l < 256" "l < 65536" | "\<not> l < 256" "\<not> l < 65536" by blast
  then show ?thesis
  proof cases
    case 1
    then show ?thesis
      by (simp add: header_small Decode_bin8 uint_ucast_byte)
  next
    case 2
    then show ?thesis
      by (simp add: header_medium Decode_bin16 Uint16_PutUint16 uint_ucast_u16)
  next
    case 3
    then show ?thesis
      by (simp add: header_large Decode_bin32 Uint32_PutUint32)
  qed
qed

lemma uint_of_nat_u32: "L < 2 ^ 32 \<Longrightarrow> uint (of_nat L :: uint32) = int L"
  by (simp only: uint_nat unat_of_nat_u32)

lemma slice_frame:
  "slice_expr (h @ P @ rest) (length h) (length h + length P) = Inr P"
  by (simp add: slice_expr_def)

subsection \<open>Header minimality\<close>

text \<open>
  Claim C1. For every payload length \<open>L\<close> with \<open>0 \<le> L \<le> 2^32 - 1\<close>,
  \<open>writeMsgpackBinArrayHeader\<close> hands to the writer the header of the least width that
  holds \<open>L\<close>: below 256 the two bytes \<open>0xC4, L\<close>; from 256 and below 65536 the three
  bytes \<open>0xC5\<close> and \<open>L\<close> in two bytes, most significant first; otherwise the five bytes
  \<open>0xC6\<close> and \<open>L\<close> in four bytes, most significant first. No header is wider than a
  width of 2, 3 or 5 whose length field can hold \<open>L\<close>. At the boundaries: 255 takes two
  bytes, 256 and 65535 three, 65536 five, and 0 two with a length byte of 0.
\<close>

theorem writeMsgpackBinArrayHeader_minimal_width:
  assumes "L < 2 ^ 32"
  shows "(L < 256 \<longrightarrow>
            writeMsgpackBinArrayHeader fw w (of_nat L) = Write fw w [0xc4, of_nat L])
       \<and> (256 \<le> L \<and> L < 65536 \<longrightarrow>
            writeMsgpackBinArrayHeader fw w (of_nat L) =
              Write fw w [0xc5, of_nat (L div 256), of_nat (L mod 256)])
       \<and> (65536 \<le> L \<longrightarrow>
            writeMsgpackBinArrayHeader fw w (of_nat L) =
              Write fw w [0xc6, of_nat (L div 2 ^ 24), of_nat (L div 2 ^ 16 mod 256),
                          of_nat (L div 2 ^ 8 mod 256), of_nat (L mod 256)])
       \<and> (\<forall>k \<in> {2, 3, 5}. L < 2 ^ (8 * (k - 1)) \<longrightarrow> length (header (of_nat L)) \<le> k)
       \<and> header 255 = [0xc4, 255] \<and> header 256 = [0xc5, 1, 0]
       \<and> header 65535 = [0xc5, 255, 255] \<and> header 65536 = [0xc6, 0, 1, 0, 0]
       \<and> header 0 = [0xc4, 0]"
proof -
  have small: "L < 256 \<longrightarrow>
      writeMsgpackBinArrayHeader fw w (of_nat L) = Write fw w [0xc4, of_nat L]"
    by (simp add: writeHeader_header header_of_nat_small)
  have medium: "256 \<le> L \<and> L < 65536 \<longrightarrow>
      writeMsgpackBinArrayHeader fw w (of_nat L) =
        Write fw w [0xc5, of_nat (L div 256), of_nat (L mod 256)]"
    by (simp add: writeHeader_header header_of_nat_medium)
  have large: "65536 \<le> L \<longrightarrow>
      writeMsgpackBinArrayHeader fw w (of_nat L) =
        Write fw w [0xc6, of_nat (L div 2 ^ 24), of_nat (L div 2 ^ 16 mod 256),
                    of_nat (L div 2 ^ 8 mod 256), of_nat (L mod 256)]"
    using assms header_of_nat_large [of L] by (simp add: writeHeader_header)
  have least: "\<forall>k \<in> {2, 3, 5}. L < 2 ^ (8 * (k - 1)) \<longrightarrow> length (header (of_nat L)) \<le> k"
    using assms by (simp add: length_header_of_nat)
  have b1: "header 255 = [0xc4, 255]"
    using header_of_nat_small [of 255] by simp
  have b2: "header 256 = [0xc5, 1, 0]"
    using header_of_nat_medium [of 256] by simp
  have b3: "header 65535 = [0xc5, 255, 255]"
    using header_of_nat_medium [of 65535] by simp
  have b4: "header 65536 = [0xc6, 0, 1, 0, 0]"
    using header_of_nat_large [of 65536] by simp
  have b5: "header 0 = [0xc4, 0]"
    using header_of_nat_small [of 0] by simp
  from small medium large least b1 b2 b3 b4 b5 show ?thesis by blast
qed

theorem writeMsgpackBinArrayHeader_minimal_width_witness:
  "writeMsgpackBinArrayHeader always_writes [] 300 = ([0xc5, 1, 44], None)
   \<and> writeMsgpackBinArrayHeader always_writes [] 70000 = ([0xc6, 0, 1, 17, 112], None)
   \<and> writeMsgpackBinArrayHeader always_writes [] 7 = ([0xc4, 7], None)"
proof -
  have a: "writeMsgpackBinArrayHeader always_writes [] 300 = ([0xc5, 1, 44], None)"
    using writeMsgpackBinArrayHeader_minimal_width [of 300 always_writes "[]"]
    by (simp add: Write_always_writes)
  have b: "writeMsgpackBinArrayHeader always_writes [] 70000 = ([0xc6, 0, 1, 17, 112], None)"
    using writeMsgpackBinArrayHeader_minimal_width [of 70000 always_writes "[]"]
    by (simp add: Write_always_writes)
  have c: "writeMsgpackBinArrayHeader always_writes [] 7 = ([0xc4, 7], None)"
    using writeMsgpackBinArrayHeader_minimal_width [of 7 always_writes "[]"]
    by (simp add: Write_always_writes)
  from a b c show ?thesis by blast
qed

subsection \<open>Round trip of the header\<close>

text \<open>
  Claim C2. For every payload length \<open>L\<close> with \<open>0 \<le> L \<le> 2^32 - 1\<close> and every
  byte sequence \<open>suffix\<close>, decoding the header written for \<open>L\<close> followed by \<open>suffix\<close>
  succeeds and reports the payload length \<open>L\<close>, the header width that was written
  (2, 3 or 5) and the total frame length, header width plus \<open>L\<close>. Hence for a payload
  \<open>P\<close> of \<open>L\<close> bytes, the frame \<open>header @ P\<close> followed by anything decodes to these
  sizes, and the bytes from the header width up to the total frame length are \<open>P\<close>.
\<close>

theorem DecodeMsgpackBinArrayHeader_of_written_header:
  assumes "L < 2 ^ 32"
  shows "(let h = header (of_nat L); hw = length h in
            hw = (if L < 256 then 2 else if L < 65536 then 3 else 5)
          \<and> DecodeMsgpackBinArrayHeader (h @ suffix) = Inr (int hw, int L, int hw + int L, None)
          \<and> (\<forall>P rest. length P = L \<longrightarrow>
                 DecodeMsgpackBinArrayHeader (h @ P @ rest) =
                   Inr (int hw, int (length P), int (hw + length P), None)
               \<and> slice_expr (h @ P @ rest) hw (hw + length P) = Inr P))"
proof -
  have w: "length (header (of_nat L)) = (if L < 256 then 2 else if L < 65536 then 3 else 5)"
    using assms by (rule length_header_of_nat)
  have d: "DecodeMsgpackBinArrayHeader (header (of_nat L) @ s) =
        Inr (int (length (header (of_nat L))), int L, int (length (header (of_nat L))) + int L, None)"
    for s
    using assms by (simp only: Decode_header uint_of_nat_u32)
  have f: "slice_expr (header (of_nat L) @ P @ rest) (length (header (of_nat L)))
             (length (header (of_nat L)) + length P) = Inr P" for P rest
    by (rule slice_frame)
  show ?thesis
    unfolding Let_def
  proof (intro conjI allI impI)
    show "length (header (of_nat L)) = (if L < 256 then 2 else if L < 65536 then 3 else 5)"
      by (rule w)
    show "DecodeMsgpackBinArrayHeader (header (of_nat L) @ suffix) =
        Inr (int (length (header (of_nat L))), int L, int (length (header (of_nat L))) + int L, None)"
      by (rule d)
    show "DecodeMsgpackBinArrayHeader (header (of_nat L) @ P @ rest) =
        Inr (int (length (header (of_nat L))), int (length P),
             int (length (header (of_nat L)) + length P), None)" if "length P = L" for P rest
      using d [of "P @ rest"] that by simp
    show "slice_expr (header (of_nat L) @ P @ rest) (length (header (of_nat L)))
             (length (header (of_nat L)) + length P) = Inr P" for P rest
      by (rule f)
  qed
qed

theorem DecodeMsgpackBinArrayHeader_of_written_header_witness:
  "DecodeMsgpackBinArrayHeader ([0xc4, 3] @ [0x81, 0xa1, 0x61, 0xc4]) = Inr (2, 3, 5, None)
   \<and> slice_expr ([0xc4, 3] @ [0x81, 0xa1, 0x61] @ [0xc4]) 2 5 = Inr [0x81, 0xa1, 0x61]
   \<and> DecodeMsgpackBinArrayHeader ([0xc5, 1, 44] @ []) = Inr (3, 300, 303, None)"
proof -
  have h3: "header (of_nat 3) = [0xc4, 3]" using header_of_nat_small [of 3] by simp
  have h300: "header (of_nat 300) = [0xc5, 1, 44]" using header_of_nat_medium [of 300] by simp
  have n3: "(3 :: nat) < 2 ^ 32" by simp
  have n300: "(300 :: nat) < 2 ^ 32" by simp
  note t3 = DecodeMsgpackBinArrayHeader_of_written_header [OF n3, unfolded Let_def h3]
  note t300 = DecodeMsgpackBinArrayHeader_of_written_header [OF n300, unfolded Let_def h300]
  have a: "DecodeMsgpackBinArrayHeader ([0xc4, 3] @ [0x81, 0xa1, 0x61, 0xc4]) = Inr (2, 3, 5, None)"
    using t3 [of "[0x81, 0xa1, 0x61, 0xc4]", THEN conjunct2, THEN conjunct1] by simp
  have l: "length [0x81 :: byte, 0xa1, 0x61] = 3" by simp
  have b: "slice_expr ([0xc4, 3] @ [0x81, 0xa1, 0x61] @ [0xc4]) 2 5 = Inr [0x81, 0xa1, 0x61]"
    using t3 [of "[]", THEN conjunct2, THEN conjunct2, rule_format, OF l, of "[0xc4]",
              THEN conjunct2]
    by (simp add: eval_nat_numeral)
  have c: "DecodeMsgpackBinArrayHeader ([0xc5, 1, 44] @ []) = Inr (3, 300, 303, None)"
    using t300 [of "[]", THEN conjunct2, THEN conjunct1] by simp
  from a b c show ?thesis by blast
qed

subsection \<open>Tags outside the \<open>bin\<close> family\<close>

text \<open>
  Claim C3 says that a first byte other than \<open>0xC4\<close>, \<open>0xC5\<close>, \<open>0xC6\<close> makes
  \<open>DecodeMsgpackBinArrayHeader\<close> fail. The \<open>switch\<close> has no \<open>default\<close> case: on the
  msgpack encoding of \<open>{"a":1}\<close>, whose first byte is \<open>0x81\<close>, the function returns
  the zero sizes and a nil error.
\<close>

theorem DecodeMsgpackBinArrayHeader_unrecognized_tag_counterexample:
  "[0x81 :: byte, 0xa1, 0x61, 0x01] \<noteq> [] \<and> hd [0x81 :: byte, 0xa1, 0x61, 0x01] \<notin> {0xc4, 0xc5, 0xc6}
   \<and> DecodeMsgpackBinArrayHeader [0x81, 0xa1, 0x61, 0x01] = Inr (0, 0, 0, None)"
  by (simp add: Decode_other)

text \<open>
  Claim C3, amended. For every non-empty byte slice whose first byte is not one of
  \<open>0xC4\<close>, \<open>0xC5\<close>, \<open>0xC6\<close>, \<open>DecodeMsgpackBinArrayHeader\<close> returns no error and
  reports header width 0, payload length 0 and total frame length 0. The caller in
  \<open>msgpackParseBench\<close> relies on it: it applies the function to the payload that the
  outer decoder has already unwrapped and decodes from offset \<open>headerSz = 0\<close>.
\<close>

theorem DecodeMsgpackBinArrayHeader_unrecognized_tag:
  assumes "p \<noteq> []" and "hd p \<notin> {0xc4, 0xc5, 0xc6}"
  shows "DecodeMsgpackBinArrayHeader p = Inr (0, 0, 0, None)"
proof -
  from assms(1) obtain tag rest where p: "p = tag # rest" by (cases p) auto
  with assms(2) have "tag \<noteq> 0xc4" "tag \<noteq> 0xc5" "tag \<noteq> 0xc6" by auto
  then show ?thesis unfolding p by (rule Decode_other)
qed

theorem DecodeMsgpackBinArrayHeader_unrecognized_tag_witness:
  "[0x00 :: byte] \<noteq> [] \<and> hd [0x00 :: byte] \<notin> {0xc4, 0xc5, 0xc6}
   \<and> DecodeMsgpackBinArrayHeader [0x00] = Inr (0, 0, 0, None)"
proof -
  have a: "[0x00 :: byte] \<noteq> []" by simp
  have b: "hd [0x00 :: byte] \<notin> {0xc4, 0xc5, 0xc6}" by simp
  show ?thesis using a b DecodeMsgpackBinArrayHeader_unrecognized_tag [OF a b] by simp
qed

subsection \<open>Truncated headers\<close>

text \<open>
  Claim C4. For every non-empty byte slice whose first byte is \<open>0xC4\<close>, \<open>0xC5\<close> or
  \<open>0xC6\<close> and whose length is less than the header width of that variant (2, 3 or 5),
  \<open>DecodeMsgpackBinArrayHeader\<close> returns the error that the slice is too small, and all
  three sizes, the payload length among them, keep their zero value.
\<close>

theorem DecodeMsgpackBinArrayHeader_truncated:
  assumes "p \<noteq> []"
    and "hd p = 0xc4 \<and> length p < 2 \<or> hd p = 0xc5 \<and> length p < 3 \<or> hd p = 0xc6 \<and> length p < 5"
  shows "DecodeMsgpackBinArrayHeader p = Inr (0, 0, 0, Some (TooSmall (int (length p))))"
proof -
  from assms(1) obtain tag rest where p: "p = tag # rest" by (cases p) auto
  with assms(2) have "tag = 0xc4 \<and> length rest < 1 \<or> tag = 0xc5 \<and> length rest < 2
       \<or> tag = 0xc6 \<and> length rest < 4" by auto
  then have "DecodeMsgpackBinArrayHeader (tag # rest) =
     Inr (0, 0, 0, Some (TooSmall (1 + int (length rest))))" by (rule Decode_short)
  then show ?thesis unfolding p by simp
qed

theorem DecodeMsgpackBinArrayHeader_truncated_witness:
  "DecodeMsgpackBinArrayHeader [0xc6, 0, 1, 0] = Inr (0, 0, 0, Some (TooSmall 4))
   \<and> DecodeMsgpackBinArrayHeader [0xc5, 1] = Inr (0, 0, 0, Some (TooSmall 2))
   \<and> DecodeMsgpackBinArrayHeader [0xc4] = Inr (0, 0, 0, Some (TooSmall 1))"
proof -
  have a: "DecodeMsgpackBinArrayHeader [0xc6, 0, 1, 0] = Inr (0, 0, 0, Some (TooSmall 4))"
    using DecodeMsgpackBinArrayHeader_truncated [of "[0xc6, 0, 1, 0]"] by simp
  have b: "DecodeMsgpackBinArrayHeader [0xc5, 1] = Inr (0, 0, 0, Some (TooSmall 2))"
    using DecodeMsgpackBinArrayHeader_truncated [of "[0xc5, 1]"] by simp
  have c: "DecodeMsgpackBinArrayHeader [0xc4] = Inr (0, 0, 0, Some (TooSmall 1))"
    using DecodeMsgpackBinArrayHeader_truncated [of "[0xc4]"] by simp
  from a b c show ?thesis by blast
qed

subsection \<open>Bounds of the slice accesses\<close>

lemma Decode_Cons_no_panic: "\<not> isl (DecodeMsgpackBinArrayHeader (tag # rest))"
  by (simp add: DecodeMsgpackBinArrayHeader_def index_expr_def slice_expr_def Uint16_def Uint32_def
      split: sum.splits)

text \<open>
  Claim C9. \<open>DecodeMsgpackBinArrayHeader\<close> reads \<open>p[0]\<close> before any check. On every slice
  of length at least 1 no index or slice expression of the function is out of range (the
  model returns \<open>Inl\<close> exactly when one is); on the empty slice the read of \<open>p[0]\<close>
  panics with an index out of range, and no error value is returned.
\<close>

theorem DecodeMsgpackBinArrayHeader_in_bounds:
  "(p \<noteq> [] \<longrightarrow> \<not> isl (DecodeMsgpackBinArrayHeader p))
   \<and> DecodeMsgpackBinArrayHeader [] = Inl IndexOutOfRange"
proof -
  have "\<not> isl (DecodeMsgpackBinArrayHeader p)" if "p \<noteq> []"
  proof -
    from that obtain tag rest where "p = tag # rest" by (cases p) auto
    then show ?thesis by (simp only: Decode_Cons_no_panic not_False_eq_True)
  qed
  then show ?thesis by (simp add: Decode_empty)
qed

theorem DecodeMsgpackBinArrayHeader_in_bounds_witness:
  "\<not> isl (DecodeMsgpackBinArrayHeader [0xc6]) \<and> \<not> isl (DecodeMsgpackBinArrayHeader [0xc5, 0, 1])
   \<and> DecodeMsgpackBinArrayHeader [] = Inl IndexOutOfRange"
proof -
  have a: "\<not> isl (DecodeMsgpackBinArrayHeader [0xc6])"
    using DecodeMsgpackBinArrayHeader_in_bounds [of "[0xc6]"] by simp
  have b: "\<not> isl (DecodeMsgpackBinArrayHeader [0xc5, 0, 1])"
    using DecodeMsgpackBinArrayHeader_in_bounds [of "[0xc5, 0, 1]"] by simp
  have c: "DecodeMsgpackBinArrayHeader [] = Inl IndexOutOfRange"
    using DecodeMsgpackBinArrayHeader_in_bounds [of "[]"] by simp
  from a b c show ?thesis by blast
qed

text \<open>The sizes the decoder returns fit Go's 64-bit \<open>int\<close>.\<close>

lemma DecodeMsgpackBinArrayHeader_range:
  assumes "DecodeMsgpackBinArrayHeader p = Inr (headerSize, payloadSize, totalFrameSize, err)"
  shows "0 \<le> headerSize \<and> headerSize \<le> 5 \<and> 0 \<le> payloadSize \<and> payloadSize < 2 ^ 32
       \<and> totalFrameSize = headerSize + payloadSize \<and> totalFrameSize < 2 ^ 63"
proof -
  have b8: "uint (b :: byte) < 2 ^ 32" for b
    using uint_bounded [of b] by simp
  have b16: "uint (v :: uint16) < 2 ^ 32" for v
    using uint_bounded [of v] by simp
  have b32: "uint (v :: uint32) < 2 ^ 32" for v
    using uint_bounded [of v] by simp
  from assms have "0 \<le> headerSize \<and> headerSize \<le> 5 \<and> 0 \<le> payloadSize \<and> payloadSize < 2 ^ 32
       \<and> totalFrameSize = headerSize + payloadSize"
    using b8 b16 b32
    by (auto simp add: DecodeMsgpackBinArrayHeader_def Let_def split: sum.splits if_splits)
  then show ?thesis by simp
qed

section \<open>Properties of the encode pipeline\<close>

subsection \<open>Facts about \<open>jsonToMsgp\<close>\<close>

lemma io_Copy_always_writes: "io_Copy always_writes dst buf = (dst @ buf, [], None)"
  by (simp add: io_Copy_def Write_always_writes)

lemma jsonToMsgp_decode_fails:
  "jdec js = Inl err \<Longrightarrow>
   jsonToMsgp fw jdec menc cfg buf js lineNum =
     (Inl (DecodePanic lineNum (InputPath cfg) err), cfg, buf)"
  by (simp add: jsonToMsgp_def)

lemma jsonToMsgp_encode_fails:
  "jdec js = Inr iface \<Longrightarrow> menc iface = (bs, Some err) \<Longrightarrow>
   jsonToMsgp fw jdec menc cfg buf js lineNum =
     (Inl (EncodePanic lineNum (InputPath cfg) err), cfg, buf @ bs)"
  by (simp add: jsonToMsgp_def)

lemma jsonToMsgp_oversize:
  "jdec js = Inr iface \<Longrightarrow> menc iface = (bs, None) \<Longrightarrow>
   int (length (buf @ bs)) > 4294967295 \<Longrightarrow>
   jsonToMsgp fw jdec menc cfg buf js lineNum =
     (Inl (TooLongPanic lineNum (InputPath cfg) (int (length (buf @ bs)))), cfg, buf @ bs)"
  by (simp add: jsonToMsgp_def Let_def)

lemma jsonToMsgp_frames:
  "jdec js = Inr iface \<Longrightarrow> menc iface = (bs, None) \<Longrightarrow>
   \<not> int (length (buf @ bs)) > 4294967295 \<Longrightarrow>
   jsonToMsgp fw jdec menc cfg buf js lineNum =
     (case writeMsgpackBinArrayHeader fw (Output cfg) (word_of_int (int (length (buf @ bs)))) of
        (out, Some err) \<Rightarrow>
          (Inl (HeaderWritePanic lineNum (InputPath cfg) (OutputPath cfg)
                  (int (length (buf @ bs))) err),
           cfg\<lparr>Output := out\<rparr>, buf @ bs)
      | (out, None) \<Rightarrow>
          (case io_Copy fw out (buf @ bs) of
             (out, buf', Some err) \<Rightarrow>
               (Inl (CopyPanic lineNum (InputPath cfg) (OutputPath cfg) err),
                cfg\<lparr>Output := out\<rparr>, buf')
           | (out, buf', None) \<Rightarrow> (Inr 0, cfg\<lparr>Output := out\<rparr>, buf')))"
  by (simp add: jsonToMsgp_def Let_def split: prod.split option.split)

lemma jsonToMsgp_status:
  "jsonToMsgp fw jdec menc cfg buf js lineNum = (Inr status, cfg', buf') \<Longrightarrow> status = 0"
  by (auto simp: jsonToMsgp_def Let_def split: sum.splits prod.splits option.splits if_splits)

lemma jsonToMsgp_always_writes:
  assumes "jdec js = Inr iface" and "menc iface = (bs, None)"
    and "\<not> int (length (buf @ bs)) > 4294967295"
  shows "jsonToMsgp always_writes jdec menc cfg buf js lineNum =
           (Inr 0, cfg\<lparr>Output := Output cfg @ header (of_nat (length (buf @ bs))) @ buf @ bs\<rparr>, [])"
  using assms
  by (simp add: jsonToMsgp_frames writeHeader_header Write_always_writes io_Copy_always_writes)

lemma Write_cases:
  obtains "Write fw out p = (out @ p, None)"
  | n e where "Write fw out p = (out @ take n p, Some e)"
  by (cases "fw out p") (auto simp: Write_def)

lemma io_Copy_cases:
  obtains "io_Copy fw dst buf = (dst @ buf, [], None)"
  | n e where "io_Copy fw dst buf = (dst @ take n buf, drop (length (take n buf)) buf, Some e)"
proof (cases "length buf > 0")
  case False
  then have "io_Copy fw dst buf = (dst @ buf, [], None)" by (simp add: io_Copy_def)
  then show ?thesis by (rule that(1))
next
  case True
  show ?thesis
  proof (rule Write_cases [of fw dst buf])
    assume "Write fw dst buf = (dst @ buf, None)"
    with True have "io_Copy fw dst buf = (dst @ buf, [], None)" by (simp add: io_Copy_def)
    then show ?thesis by (rule that(1))
  next
    fix n e assume "Write fw dst buf = (dst @ take n buf, Some e)"
    with True have "io_Copy fw dst buf = (dst @ take n buf, drop (length (take n buf)) buf, Some e)"
      by (simp add: io_Copy_def)
    then show ?thesis by (rule that(2))
  qed
qed

lemma take_prefix_append: "\<exists>m. take n h = take m (h @ t)"
proof (cases "n \<le> length h")
  case True
  then have "take n h = take n (h @ t)" by simp
  then show ?thesis ..
next
  case False
  then have "take n h = take (length h) (h @ t)" by simp
  then show ?thesis ..
qed

lemma jsonToMsgp_writes_prefix:
  assumes "jdec js = Inr iface" and "menc iface = (bs, None)"
    and "\<not> int (length (buf @ bs)) > 4294967295"
  shows "\<exists>n. Output (fst (snd (jsonToMsgp fw jdec menc cfg buf js lineNum))) =
           Output cfg @ take n (header (word_of_int (int (length (buf @ bs)))) @ buf @ bs)"
proof -
  let ?h = "header (word_of_int (int (length (buf @ bs))))"
  let ?r = "jsonToMsgp fw jdec menc cfg buf js lineNum"
  note eq = jsonToMsgp_frames [where jdec = jdec and js = js and iface = iface and menc = menc
      and buf = buf and bs = bs and fw = fw and cfg = cfg and lineNum = lineNum, OF assms,
      unfolded writeHeader_header]
  show ?thesis
  proof (rule Write_cases [of fw "Output cfg" ?h])
    fix n e assume w: "Write fw (Output cfg) ?h = (Output cfg @ take n ?h, Some e)"
    obtain m where "take n ?h = take m (?h @ buf @ bs)" using take_prefix_append by blast
    with w eq show ?thesis by auto
  next
    assume w: "Write fw (Output cfg) ?h = (Output cfg @ ?h, None)"
    show ?thesis
    proof (rule io_Copy_cases [of fw "Output cfg @ ?h" "buf @ bs"])
      assume "io_Copy fw (Output cfg @ ?h) (buf @ bs) = ((Output cfg @ ?h) @ buf @ bs, [], None)"
      with w eq have "Output (fst (snd ?r)) = Output cfg @ take (length (?h @ buf @ bs)) (?h @ buf @ bs)"
        by simp
      then show ?thesis ..
    next
      fix n e
      assume "io_Copy fw (Output cfg @ ?h) (buf @ bs) =
          ((Output cfg @ ?h) @ take n (buf @ bs), drop (length (take n (buf @ bs))) (buf @ bs), Some e)"
      with w eq have "Output (fst (snd ?r)) = Output cfg @ take (length ?h + n) (?h @ buf @ bs)"
        by simp
      then show ?thesis ..
    qed
  qed
qed

lemma uint_length_u32:
  assumes "\<not> int (length xs) > 4294967295"
  shows "uint (word_of_int (int (length xs)) :: uint32) = int (length xs)"
proof -
  have "length xs < 2 ^ 32" using assms by simp
  then have "uint (of_nat (length xs) :: uint32) = int (length xs)" by (rule uint_of_nat_u32)
  then show ?thesis by simp
qed

lemma processFile_loop_panics:
  assumes "ReadBytes bufIn newline = ((js, err), bufIn')"
    and "js \<noteq> []" and "err = None \<or> err = Some EOF"
    and "jsonToMsgp fw jdec menc cfg buf js lineNum = (Inl pn, cfg', buf')"
  shows "processFile_loop fw jdec menc cfg bufIn buf lineNum = (Inl pn, cfg')"
  using assms by (subst processFile_loop.simps) auto

subsection \<open>Oversize payloads\<close>

text \<open>
  Claim C5. In the encode pipeline \<open>jsonToMsgp\<close> is called with an empty buffer, so the
  buffer holds the payload \<open>bs\<close> of the record. When the payload has \<open>2^32\<close> bytes or
  more, \<open>jsonToMsgp\<close> panics with the too-long error and leaves the configuration, hence
  the output file, as it was: no byte of a header or of the payload has been written;
  the loop of \<open>processFile\<close> ends the run with that panic. When the payload has at most
  \<open>2^32 - 1\<close> bytes, \<open>jsonToMsgp\<close> does not panic with the too-long error.
\<close>

theorem jsonToMsgp_oversize_payload:
  assumes "jdec js = Inr iface" and "menc iface = (bs, None)"
  shows "(2 ^ 32 \<le> length bs \<longrightarrow>
            jsonToMsgp fw jdec menc cfg [] js lineNum =
              (Inl (TooLongPanic lineNum (InputPath cfg) (int (length bs))), cfg, bs)
          \<and> (\<forall>bufIn err bufIn'.
                ReadBytes bufIn newline = ((js, err), bufIn') \<and> js \<noteq> []
                \<and> (err = None \<or> err = Some EOF) \<longrightarrow>
                processFile_loop fw jdec menc cfg bufIn [] lineNum =
                  (Inl (TooLongPanic lineNum (InputPath cfg) (int (length bs))), cfg)))
       \<and> (length bs \<le> 2 ^ 32 - 1 \<longrightarrow>
            (\<forall>n path blen. fst (jsonToMsgp fw jdec menc cfg [] js lineNum)
                              \<noteq> Inl (TooLongPanic n path blen)))"
proof (intro conjI impI allI)
  assume big: "2 ^ 32 \<le> length bs"
  then have "int (length ([] @ bs)) > 4294967295" by simp
  from jsonToMsgp_oversize [where jdec = jdec and js = js and iface = iface and menc = menc
      and buf = "[]" and bs = bs and fw = fw and cfg = cfg and lineNum = lineNum, OF assms this]
  show p: "jsonToMsgp fw jdec menc cfg [] js lineNum =
      (Inl (TooLongPanic lineNum (InputPath cfg) (int (length bs))), cfg, bs)" by simp
  fix bufIn err bufIn'
  assume "ReadBytes bufIn newline = ((js, err), bufIn') \<and> js \<noteq> []
      \<and> (err = None \<or> err = Some EOF)"
  then show "processFile_loop fw jdec menc cfg bufIn [] lineNum =
      (Inl (TooLongPanic lineNum (InputPath cfg) (int (length bs))), cfg)"
    using p by (blast intro: processFile_loop_panics)
next
  fix n path blen
  assume "length bs \<le> 2 ^ 32 - 1"
  then have small: "\<not> int (length ([] @ bs)) > 4294967295" by simp
  note eq = jsonToMsgp_frames [where jdec = jdec and js = js and iface = iface and menc = menc
      and buf = "[]" and bs = bs and fw = fw and cfg = cfg and lineNum = lineNum,
      OF assms small]
  show "fst (jsonToMsgp fw jdec menc cfg [] js lineNum) \<noteq> Inl (TooLongPanic n path blen)"
    unfolding eq by (simp split: prod.split option.split)
qed

theorem jsonToMsgp_oversize_payload_witness:
  "jsonToMsgp always_writes (\<lambda>js. Inr VNil) (\<lambda>v. (replicate (2 ^ 32) 0, None))
      \<lparr>InputPath = ''in'', OutputPath = ''out'',
       Input = \<lparr>content = [0x7b, 0x7d], read_error = EOF\<rparr>, Output = [0xc4, 1, 0xc0]\<rparr>
      [] [0x7b, 0x7d] 2 =
    (Inl (TooLongPanic 2 ''in'' 4294967296),
     \<lparr>InputPath = ''in'', OutputPath = ''out'',
      Input = \<lparr>content = [0x7b, 0x7d], read_error = EOF\<rparr>, Output = [0xc4, 1, 0xc0]\<rparr>,
     replicate (2 ^ 32) 0)
   \<and> fst (jsonToMsgp always_writes (\<lambda>js. Inr VNil) (\<lambda>v. ([0xc0], None))
      \<lparr>InputPath = ''in'', OutputPath = ''out'',
       Input = \<lparr>content = [0x7b, 0x7d], read_error = EOF\<rparr>, Output = []\<rparr>
      [] [0x7b, 0x7d] 1) \<noteq> Inl (TooLongPanic 1 ''in'' 1)"
proof -
  let ?cfg = "\<lparr>InputPath = ''in'', OutputPath = ''out'',
       Input = \<lparr>content = [0x7b, 0x7d], read_error = EOF\<rparr>, Output = [0xc4, 1, 0xc0 :: byte]\<rparr>"
  let ?cfg' = "\<lparr>InputPath = ''in'', OutputPath = ''out'',
       Input = \<lparr>content = [0x7b, 0x7d], read_error = EOF\<rparr>, Output = [] :: byte list\<rparr>"
  note t1 = jsonToMsgp_oversize_payload [where jdec = "\<lambda>js. Inr VNil"
      and menc = "\<lambda>v. (replicate (2 ^ 32) 0, None)" and js = "[0x7b, 0x7d]" and iface = VNil
      and bs = "replicate (2 ^ 32) 0" and fw = always_writes and cfg = ?cfg and lineNum = 2,
      THEN conjunct1]
  note t2 = jsonToMsgp_oversize_payload [where jdec = "\<lambda>js. Inr VNil"
      and menc = "\<lambda>v. ([0xc0], None)" and js = "[0x7b, 0x7d]" and iface = VNil
      and bs = "[0xc0]" and fw = always_writes and cfg = ?cfg' and lineNum = 1,
      THEN conjunct2]
  have a: "jsonToMsgp always_writes (\<lambda>js. Inr VNil) (\<lambda>v. (replicate (2 ^ 32) 0, None))
      ?cfg [] [0x7b, 0x7d] 2 =
    (Inl (TooLongPanic 2 ''in'' 4294967296), ?cfg, replicate (2 ^ 32) 0)"
    using t1 by simp
  have b: "fst (jsonToMsgp always_writes (\<lambda>js. Inr VNil) (\<lambda>v. ([0xc0], None))
      ?cfg' [] [0x7b, 0x7d] 1) \<noteq> Inl (TooLongPanic 1 ''in'' 1)"
    using t2 by simp
  from a b show ?thesis by blast
qed

subsection \<open>The conversion of the length to 32 bits\<close>

text \<open>
  Claim C10. \<open>jsonToMsgp\<close> reaches \<open>uint32(blen)\<close> on the paths where the line decodes,
  the value encodes and the test \<open>blen > 4294967295\<close> is false. On each of them the
  conversion keeps the value: the 32-bit length read back as a number is the length of the
  buffer. Whatever the file accepts, what has been written is an initial part of the header
  of that length followed by the buffer; when every write succeeds it is all of it, and
  decoding its header reports the true length of the payload.
\<close>

theorem jsonToMsgp_length_conversion_exact:
  assumes "jdec js = Inr iface" and "menc iface = (bs, None)"
    and "\<not> int (length (buf @ bs)) > 4294967295"
  shows "(let blen = int (length (buf @ bs)); l = (word_of_int blen :: uint32) in
            uint l = blen
          \<and> (\<exists>n. Output (fst (snd (jsonToMsgp fw jdec menc cfg buf js lineNum))) =
                   Output cfg @ take n (header l @ buf @ bs))
          \<and> jsonToMsgp always_writes jdec menc cfg buf js lineNum =
              (Inr 0, cfg\<lparr>Output := Output cfg @ header l @ buf @ bs\<rparr>, [])
          \<and> DecodeMsgpackBinArrayHeader (header l @ buf @ bs) =
              Inr (int (length (header l)), blen, int (length (header l)) + blen, None))"
proof -
  let ?l = "word_of_int (int (length (buf @ bs))) :: uint32"
  have u: "uint ?l = int (length (buf @ bs))"
    using assms(3) by (rule uint_length_u32)
  have p: "\<exists>n. Output (fst (snd (jsonToMsgp fw jdec menc cfg buf js lineNum))) =
      Output cfg @ take n (header ?l @ buf @ bs)"
    using assms by (rule jsonToMsgp_writes_prefix)
  have w: "jsonToMsgp always_writes jdec menc cfg buf js lineNum =
      (Inr 0, cfg\<lparr>Output := Output cfg @ header ?l @ buf @ bs\<rparr>, [])"
    using jsonToMsgp_always_writes [where jdec = jdec and js = js and iface = iface
        and menc = menc and buf = buf and bs = bs and cfg = cfg and lineNum = lineNum, OF assms]
    by simp
  have d: "DecodeMsgpackBinArrayHeader (header ?l @ buf @ bs) =
      Inr (int (length (header ?l)), int (length (buf @ bs)),
           int (length (header ?l)) + int (length (buf @ bs)), None)"
    by (simp only: Decode_header u)
  from u p w d show ?thesis unfolding Let_def by blast
qed

theorem jsonToMsgp_length_conversion_exact_witness:
  "jsonToMsgp always_writes (\<lambda>js. Inr (VMap [(''a'', VInt 1)])) (\<lambda>v. ([0x81, 0xa1, 0x61, 0x01], None))
      \<lparr>InputPath = ''in'', OutputPath = ''out'',
       Input = \<lparr>content = [], read_error = EOF\<rparr>, Output = []\<rparr>
      [] [0x7b, 0x22, 0x61, 0x22, 0x3a, 0x31, 0x7d, 0x0a] 1 =
    (Inr 0,
     \<lparr>InputPath = ''in'', OutputPath = ''out'',
      Input = \<lparr>content = [], read_error = EOF\<rparr>,
      Output = [0xc4, 4, 0x81, 0xa1, 0x61, 0x01]\<rparr>, [])
   \<and> DecodeMsgpackBinArrayHeader [0xc4, 4, 0x81, 0xa1, 0x61, 0x01] = Inr (2, 4, 6, None)"
proof -
  have h: "header 4 = [0xc4, 4]" using header_of_nat_small [of 4] by simp
  note t = jsonToMsgp_length_conversion_exact [where jdec = "\<lambda>js. Inr (VMap [(''a'', VInt 1)])"
      and menc = "\<lambda>v. ([0x81, 0xa1, 0x61, 0x01], None)"
      and js = "[0x7b, 0x22, 0x61, 0x22, 0x3a, 0x31, 0x7d, 0x0a]"
      and iface = "VMap [(''a'', VInt 1)]" and bs = "[0x81, 0xa1, 0x61, 0x01]" and buf = "[]"
      and fw = always_writes and lineNum = 1
      and cfg = "\<lparr>InputPath = ''in'', OutputPath = ''out'',
                 Input = \<lparr>content = [], read_error = EOF\<rparr>, Output = []\<rparr>",
      unfolded Let_def, THEN conjunct2, THEN conjunct2]
  show ?thesis using t by (simp add: h)
qed

subsection \<open>The read loop, line by line\<close>

lemma ReadBytes_line:
  assumes "newline \<notin> set l"
  shows "ReadBytes \<lparr>content = l @ newline # rest, read_error = e\<rparr> newline =
           ((l @ [newline], None), \<lparr>content = rest, read_error = e\<rparr>)"
proof -
  have a: "\<forall>b \<in> set l. b \<noteq> newline" using assms by auto
  have d: "dropWhile (\<lambda>b. b \<noteq> newline) (l @ newline # rest) = newline # rest"
    using a by (simp add: dropWhile_append2)
  have t: "takeWhile (\<lambda>b. b \<noteq> newline) (l @ newline # rest) = l"
    using a by (simp add: takeWhile_append2)
  show ?thesis by (simp add: ReadBytes_def d t)
qed

lemma ReadBytes_tail:
  assumes "newline \<notin> set tail"
  shows "ReadBytes \<lparr>content = tail, read_error = e\<rparr> newline =
           ((tail, Some e), \<lparr>content = [], read_error = e\<rparr>)"
proof -
  have d: "dropWhile (\<lambda>b. b \<noteq> newline) tail = []"
    using assms by (auto simp: dropWhile_eq_Nil_conv)
  show ?thesis by (simp add: ReadBytes_def d)
qed

lemma processFile_loop_tail:
  assumes "newline \<notin> set tail"
  shows "processFile_loop fw jdec menc cfg \<lparr>content = tail, read_error = e\<rparr> [] lineNum =
           (if e \<noteq> EOF then (Inr 2, cfg)
            else if tail = [] then (Inr 0, cfg)
            else (case jsonToMsgp fw jdec menc cfg [] tail lineNum of
                    (Inl pn, cfg', buf') \<Rightarrow> (Inl pn, cfg')
                  | (Inr status, cfg', buf') \<Rightarrow> (Inr 0, cfg')))"
proof -
  have s: "status = 0"
    if "jsonToMsgp fw jdec menc cfg [] tail lineNum = (Inr status, cfg', buf')"
    for status cfg' buf'
    using that by (rule jsonToMsgp_status)
  show ?thesis
    by (subst processFile_loop.simps)
       (auto simp: ReadBytes_tail [OF assms] split: sum.splits prod.splits dest: s)
qed

lemma processFile_loop_line:
  assumes "newline \<notin> set l"
  shows "processFile_loop fw jdec menc cfg \<lparr>content = l @ newline # rest, read_error = e\<rparr> []
           lineNum =
           (case jsonToMsgp fw jdec menc cfg [] (l @ [newline]) lineNum of
              (Inl pn, cfg', buf') \<Rightarrow> (Inl pn, cfg')
            | (Inr status, cfg', buf') \<Rightarrow>
                processFile_loop fw jdec menc cfg' \<lparr>content = rest, read_error = e\<rparr> []
                  (lineNum + 1))"
proof -
  have s: "status = 0"
    if "jsonToMsgp fw jdec menc cfg [] (l @ [newline]) lineNum = (Inr status, cfg', buf')"
    for status cfg' buf'
    using that by (rule jsonToMsgp_status)
  show ?thesis
    by (subst processFile_loop.simps)
       (auto simp: ReadBytes_line [OF assms] split: sum.splits prod.splits dest: s)
qed

lemma processFile_loop_lines:
  assumes "\<forall>l \<in> set ls. newline \<notin> set l" and "newline \<notin> set tail"
  shows "processFile_loop fw jdec menc cfg
           \<lparr>content = terminated_lines ls @ tail, read_error = e\<rparr> [] lineNum =
         (case convert_records fw jdec menc cfg (map (\<lambda>l. l @ [newline]) ls) lineNum of
            (Some pn, cfg') \<Rightarrow> (Inl pn, cfg')
          | (None, cfg') \<Rightarrow>
              processFile_loop fw jdec menc cfg' \<lparr>content = tail, read_error = e\<rparr> []
                (lineNum + of_nat (length ls)))"
  using assms(1)
proof (induction ls arbitrary: cfg lineNum)
  case Nil
  show ?case by (simp add: terminated_lines_def)
next
  case (Cons l ls)
  then have l: "newline \<notin> set l" and ls: "\<forall>l \<in> set ls. newline \<notin> set l" by simp_all
  have c: "terminated_lines (l # ls) @ tail = l @ newline # (terminated_lines ls @ tail)"
    by (simp add: terminated_lines_def)
  have n: "lineNum + of_nat (length (l # ls)) = (lineNum + 1) + of_nat (length ls)"
    by simp
  show ?case
    unfolding c n processFile_loop_line [OF l]
    by (simp add: Cons.IH [OF ls] split: sum.splits prod.splits)
qed

lemma convert_records_append:
  "convert_records fw jdec menc cfg (xs @ ys) lineNum =
     (case convert_records fw jdec menc cfg xs lineNum of
        (Some pn, cfg') \<Rightarrow> (Some pn, cfg')
      | (None, cfg') \<Rightarrow> convert_records fw jdec menc cfg' ys (lineNum + of_nat (length xs)))"
proof (induction xs arbitrary: cfg lineNum)
  case Nil
  show ?case by simp
next
  case (Cons x xs)
  have n: "lineNum + of_nat (length (x # xs)) = (lineNum + 1) + of_nat (length xs)"
    by simp
  show ?case unfolding n
    by (simp add: Cons.IH split: sum.splits prod.splits)
qed

lemma convert_records_single:
  "convert_records fw jdec menc cfg [js] lineNum =
     (case jsonToMsgp fw jdec menc cfg [] js lineNum of
        (Inl pn, cfg', buf') \<Rightarrow> (Some pn, cfg')
      | (Inr status, cfg', buf') \<Rightarrow> (None, cfg'))"
  by (simp split: sum.splits prod.splits)

lemma processFile_records:
  assumes "\<forall>l \<in> set ls. newline \<notin> set l" and "newline \<notin> set tail"
    and "Input cfg = \<lparr>content = terminated_lines ls @ tail, read_error = e\<rparr>"
  shows "processFile fw jdec menc cfg =
           (case convert_records fw jdec menc cfg (map (\<lambda>l. l @ [newline]) ls) 1 of
              (Some pn, cfg') \<Rightarrow> (Inl pn, cfg')
            | (None, cfg') \<Rightarrow>
                if e \<noteq> EOF then (Inr 2, cfg')
                else if tail = [] then (Inr 0, cfg')
                else (case convert_records fw jdec menc cfg' [tail] (1 + of_nat (length ls)) of
                        (Some pn, cfg'') \<Rightarrow> (Inl pn, cfg'')
                      | (None, cfg'') \<Rightarrow> (Inr 0, cfg'')))"
  unfolding processFile_def assms(3) processFile_loop_lines [OF assms(1,2)]
    processFile_loop_tail [OF assms(2)] convert_records_single
  by (simp split: sum.splits prod.splits option.splits)

lemma convert_records_always_writes:
  assumes "\<forall>r \<in> set rs. converts jdec menc r"
  shows "convert_records always_writes jdec menc cfg rs lineNum =
           (None, cfg\<lparr>Output := Output cfg @ concat (map (frame_of jdec menc) rs)\<rparr>)"
  using assms
proof (induction rs arbitrary: cfg lineNum)
  case Nil
  show ?case by simp
next
  case (Cons r rs)
  from Cons.prems have "converts jdec menc r" by simp
  then obtain iface bs where d: "jdec r = Inr iface" and m: "menc iface = (bs, None)"
    and s: "\<not> int (length ([] @ bs)) > 4294967295"
    by (auto simp: converts_def split: sum.splits prod.splits option.splits)
  have f: "frame_of jdec menc r = header (of_nat (length bs)) @ bs"
    by (simp add: frame_of_def d m)
  have j: "jsonToMsgp always_writes jdec menc cfg [] r lineNum =
      (Inr 0, cfg\<lparr>Output := Output cfg @ frame_of jdec menc r\<rparr>, [])"
    using jsonToMsgp_always_writes [where jdec = jdec and js = r and iface = iface
        and menc = menc and buf = "[]" and bs = bs and cfg = cfg and lineNum = lineNum,
        OF d m s]
    by (simp add: f)
  from Cons.prems have "\<forall>r \<in> set rs. converts jdec menc r" by simp
  then show ?case by (simp add: j Cons.IH)
qed

lemma lines_decomposition:
  "\<exists>ls tail. data = terminated_lines ls @ tail
     \<and> (\<forall>l \<in> set ls. newline \<notin> set l) \<and> newline \<notin> set tail"
proof (induction data rule: rev_induct)
  case Nil
  have "[] = terminated_lines [] @ [] \<and> (\<forall>l \<in> set []. newline \<notin> set l)
      \<and> newline \<notin> set ([] :: byte list)"
    by (simp add: terminated_lines_def)
  then show ?case by blast
next
  case (snoc b data)
  then obtain ls tail where d: "data = terminated_lines ls @ tail"
    and l: "\<forall>l \<in> set ls. newline \<notin> set l" and t: "newline \<notin> set tail" by blast
  show ?case
  proof (cases "b = newline")
    case True
    have "data @ [b] = terminated_lines (ls @ [tail]) @ []
        \<and> (\<forall>l \<in> set (ls @ [tail]). newline \<notin> set l) \<and> newline \<notin> set ([] :: byte list)"
      using d l t True by (simp add: terminated_lines_def)
    then show ?thesis by blast
  next
    case False
    have "data @ [b] = terminated_lines ls @ (tail @ [b])
        \<and> (\<forall>l \<in> set ls. newline \<notin> set l) \<and> newline \<notin> set (tail @ [b])"
      using d l t False by simp
    then show ?thesis by blast
  qed
qed

subsection \<open>One frame for each line\<close>

text \<open>
  Claim C6. Take an input that ends with \<open>io.EOF\<close> and consists of the lines \<open>ls\<close>, each
  followed by a newline, and of a last part \<open>tail\<close> without newline (by
  \<open>lines_decomposition\<close> every input is of this form). The read loop converts each line
  once, in order and with the next line number, and the last part as one more record when
  it is not empty; the read that yields no byte at the end of the stream ends the loop
  and adds no record. When every record converts and every write succeeds, the output is
  the output so far followed by one frame for each record: \<open>length ls\<close> frames when the
  input ends with a newline, one more when it does not.
\<close>

theorem processFile_one_frame_per_line:
  assumes "\<forall>l \<in> set ls. newline \<notin> set l" and "newline \<notin> set tail"
    and "Input cfg = \<lparr>content = terminated_lines ls @ tail, read_error = EOF\<rparr>"
  shows "(let records = map (\<lambda>l. l @ [newline]) ls @ (if tail = [] then [] else [tail]) in
            processFile fw jdec menc cfg =
              (case convert_records fw jdec menc cfg records 1 of
                 (Some pn, cfg') \<Rightarrow> (Inl pn, cfg')
               | (None, cfg') \<Rightarrow> (Inr 0, cfg'))
          \<and> ((\<forall>r \<in> set records. converts jdec menc r) \<longrightarrow>
                processFile always_writes jdec menc cfg =
                  (Inr 0, cfg\<lparr>Output := Output cfg @ concat (map (frame_of jdec menc) records)\<rparr>))
          \<and> length (map (frame_of jdec menc) records) =
                length ls + (if tail = [] then 0 else 1))"
proof -
  let ?recs = "map (\<lambda>l. l @ [newline]) ls @ (if tail = [] then [] else [tail])"
  have eq: "processFile fw jdec menc cfg =
      (case convert_records fw jdec menc cfg ?recs 1 of
         (Some pn, cfg') \<Rightarrow> (Inl pn, cfg')
       | (None, cfg') \<Rightarrow> (Inr 0, cfg'))" for fw
    unfolding processFile_records [OF assms] convert_records_append
    by (simp split: prod.splits option.splits)
  have fr: "processFile always_writes jdec menc cfg =
      (Inr 0, cfg\<lparr>Output := Output cfg @ concat (map (frame_of jdec menc) ?recs)\<rparr>)"
    if "\<forall>r \<in> set ?recs. converts jdec menc r"
    unfolding eq convert_records_always_writes [OF that] by simp
  have n: "length (map (frame_of jdec menc) ?recs) = length ls + (if tail = [] then 0 else 1)"
    by simp
  from eq fr n show ?thesis unfolding Let_def by blast
qed

theorem processFile_one_frame_per_line_witness:
  "processFile always_writes (\<lambda>js. Inr (VBytes js))
        (\<lambda>v. case v of VBytes b \<Rightarrow> (b, None) | _ \<Rightarrow> ([], Some (OtherError ''not bytes'')))
      \<lparr>InputPath = ''in'', OutputPath = ''out'',
       Input = \<lparr>content = [0x7b, 0x7d, 0x0a, 0x5b, 0x5d, 0x0a, 0x31], read_error = EOF\<rparr>,
       Output = []\<rparr> =
    (Inr 0,
     \<lparr>InputPath = ''in'', OutputPath = ''out'',
      Input = \<lparr>content = [0x7b, 0x7d, 0x0a, 0x5b, 0x5d, 0x0a, 0x31], read_error = EOF\<rparr>,
      Output = [0xc4, 3, 0x7b, 0x7d, 0x0a] @ [0xc4, 3, 0x5b, 0x5d, 0x0a] @ [0xc4, 1, 0x31]\<rparr>)
   \<and> processFile always_writes (\<lambda>js. Inr (VBytes js))
        (\<lambda>v. case v of VBytes b \<Rightarrow> (b, None) | _ \<Rightarrow> ([], Some (OtherError ''not bytes'')))
      \<lparr>InputPath = ''in'', OutputPath = ''out'',
       Input = \<lparr>content = [0x7b, 0x7d, 0x0a], read_error = EOF\<rparr>, Output = []\<rparr> =
    (Inr 0,
     \<lparr>InputPath = ''in'', OutputPath = ''out'',
      Input = \<lparr>content = [0x7b, 0x7d, 0x0a], read_error = EOF\<rparr>,
      Output = [0xc4, 3, 0x7b, 0x7d, 0x0a]\<rparr>)"
proof -
  let ?jdec = "\<lambda>js. Inr (VBytes js) :: error + iface"
  let ?menc = "\<lambda>v. case v of VBytes b \<Rightarrow> (b, None)
                 | _ \<Rightarrow> ([] :: byte list, Some (OtherError ''not bytes''))"
  have h3: "header 3 = [0xc4, 3]" using header_of_nat_small [of 3] by simp
  have h1: "header 1 = [0xc4, 1]" using header_of_nat_small [of 1] by simp
  note t1 = processFile_one_frame_per_line [where ls = "[[0x7b, 0x7d], [0x5b, 0x5d]]"
      and tail = "[0x31]" and jdec = ?jdec and menc = ?menc
      and cfg = "\<lparr>InputPath = ''in'', OutputPath = ''out'',
         Input = \<lparr>content = [0x7b, 0x7d, 0x0a, 0x5b, 0x5d, 0x0a, 0x31], read_error = EOF\<rparr>,
         Output = []\<rparr>", unfolded Let_def, THEN conjunct2, THEN conjunct1]
  note t2 = processFile_one_frame_per_line [where ls = "[[0x7b, 0x7d]]"
      and tail = "[]" and jdec = ?jdec and menc = ?menc
      and cfg = "\<lparr>InputPath = ''in'', OutputPath = ''out'',
         Input = \<lparr>content = [0x7b, 0x7d, 0x0a], read_error = EOF\<rparr>,
         Output = []\<rparr>", unfolded Let_def, THEN conjunct2, THEN conjunct1]
  have a: "processFile always_writes ?jdec ?menc
      \<lparr>InputPath = ''in'', OutputPath = ''out'',
       Input = \<lparr>content = [0x7b, 0x7d, 0x0a, 0x5b, 0x5d, 0x0a, 0x31], read_error = EOF\<rparr>,
       Output = []\<rparr> =
    (Inr 0,
     \<lparr>InputPath = ''in'', OutputPath = ''out'',
      Input = \<lparr>content = [0x7b, 0x7d, 0x0a, 0x5b, 0x5d, 0x0a, 0x31], read_error = EOF\<rparr>,
      Output = [0xc4, 3, 0x7b, 0x7d, 0x0a] @ [0xc4, 3, 0x5b, 0x5d, 0x0a] @ [0xc4, 1, 0x31]\<rparr>)"
    using t1 by (simp add: terminated_lines_def newline_def converts_def frame_of_def h3 h1)
  have b: "processFile always_writes ?jdec ?menc
      \<lparr>InputPath = ''in'', OutputPath = ''out'',
       Input = \<lparr>content = [0x7b, 0x7d, 0x0a], read_error = EOF\<rparr>, Output = []\<rparr> =
    (Inr 0,
     \<lparr>InputPath = ''in'', OutputPath = ''out'',
      Input = \<lparr>content = [0x7b, 0x7d, 0x0a], read_error = EOF\<rparr>,
      Output = [0xc4, 3, 0x7b, 0x7d, 0x0a]\<rparr>)"
    using t2 by (simp add: terminated_lines_def newline_def converts_def frame_of_def h3)
  from a b show ?thesis by blast
qed

subsection \<open>The status of \<open>processFile\<close>\<close>

text \<open>
  Claim C7. For an input of the lines \<open>ls\<close>, a last part \<open>tail\<close> without newline and the
  error \<open>e\<close> that ends the stream, \<open>processFile\<close> returns 0 exactly when the stream ends
  with \<open>io.EOF\<close> and no record panics, that is, the whole input is consumed; it returns 2
  exactly when the stream ends with another error and no complete line before it panics,
  that is, the failing read is reached. It returns no other status, and \<open>main\<close> exits
  with the status that \<open>processFile\<close> returns.
\<close>

theorem processFile_status:
  assumes "\<forall>l \<in> set ls. newline \<notin> set l" and "newline \<notin> set tail"
    and "Input cfg = \<lparr>content = terminated_lines ls @ tail, read_error = e\<rparr>"
  shows "(fst (processFile fw jdec menc cfg) = Inr 0 \<longleftrightarrow>
            e = EOF
            \<and> fst (convert_records fw jdec menc cfg
                     (map (\<lambda>l. l @ [newline]) ls @ (if tail = [] then [] else [tail])) 1) = None)
       \<and> (fst (processFile fw jdec menc cfg) = Inr 2 \<longleftrightarrow>
            e \<noteq> EOF
            \<and> fst (convert_records fw jdec menc cfg (map (\<lambda>l. l @ [newline]) ls) 1) = None)
       \<and> (\<forall>status. fst (processFile fw jdec menc cfg) = Inr status \<longrightarrow> status = 0 \<or> status = 2)
       \<and> main fw jdec menc (Inr cfg) =
            (case fst (processFile fw jdec menc cfg) of
               Inl pn \<Rightarrow> Abort pn
             | Inr status \<Rightarrow> Exit status)"
proof -
  note eq = processFile_records [OF assms, of fw jdec menc]
  have z: "fst (processFile fw jdec menc cfg) = Inr 0 \<longleftrightarrow>
      e = EOF
      \<and> fst (convert_records fw jdec menc cfg
               (map (\<lambda>l. l @ [newline]) ls @ (if tail = [] then [] else [tail])) 1) = None"
    unfolding eq convert_records_append
    by (simp split: prod.splits option.splits)
  have t: "fst (processFile fw jdec menc cfg) = Inr 2 \<longleftrightarrow>
      e \<noteq> EOF
      \<and> fst (convert_records fw jdec menc cfg (map (\<lambda>l. l @ [newline]) ls) 1) = None"
    unfolding eq
    by (simp split: prod.splits option.splits)
  have o: "\<forall>status. fst (processFile fw jdec menc cfg) = Inr status \<longrightarrow> status = 0 \<or> status = 2"
    unfolding eq
    by (simp split: prod.splits option.splits)
  have m: "main fw jdec menc (Inr cfg) =
      (case fst (processFile fw jdec menc cfg) of
         Inl pn \<Rightarrow> Abort pn
       | Inr status \<Rightarrow> Exit status)"
    by (simp add: main_def split: prod.splits sum.splits)
  from z t o m show ?thesis by blast
qed

theorem processFile_status_witness:
  "fst (processFile always_writes (\<lambda>js. Inr (VBytes js))
        (\<lambda>v. case v of VBytes b \<Rightarrow> (b, None) | _ \<Rightarrow> ([], Some (OtherError ''not bytes'')))
      \<lparr>InputPath = ''in'', OutputPath = ''out'',
       Input = \<lparr>content = [0x7b, 0x7d, 0x0a, 0x31], read_error = OtherError ''read failed''\<rparr>,
       Output = []\<rparr>) = Inr 2
   \<and> main always_writes (\<lambda>js. Inr (VBytes js))
        (\<lambda>v. case v of VBytes b \<Rightarrow> (b, None) | _ \<Rightarrow> ([], Some (OtherError ''not bytes'')))
      (Inr \<lparr>InputPath = ''in'', OutputPath = ''out'',
       Input = \<lparr>content = [0x7b, 0x7d, 0x0a, 0x31], read_error = OtherError ''read failed''\<rparr>,
       Output = []\<rparr>) = Exit 2
   \<and> fst (processFile always_writes (\<lambda>js. Inr (VBytes js))
        (\<lambda>v. case v of VBytes b \<Rightarrow> (b, None) | _ \<Rightarrow> ([], Some (OtherError ''not bytes'')))
      \<lparr>InputPath = ''in'', OutputPath = ''out'',
       Input = \<lparr>content = [0x7b, 0x7d, 0x0a, 0x31], read_error = EOF\<rparr>,
       Output = []\<rparr>) = Inr 0"
proof -
  let ?jdec = "\<lambda>js. Inr (VBytes js) :: error + iface"
  let ?menc = "\<lambda>v. case v of VBytes b \<Rightarrow> (b, None)
                 | _ \<Rightarrow> ([] :: byte list, Some (OtherError ''not bytes''))"
  let ?cfg = "\<lambda>e. \<lparr>InputPath = ''in'', OutputPath = ''out'',
       Input = \<lparr>content = [0x7b, 0x7d, 0x0a, 0x31], read_error = e\<rparr>,
       Output = [] :: byte list\<rparr>"
  have c: "fst (convert_records always_writes ?jdec ?menc cfg rs lineNum) = None"
    if "\<forall>r \<in> set rs. converts ?jdec ?menc r" for cfg rs lineNum
    using that by (simp add: convert_records_always_writes)
  have c1: "fst (convert_records always_writes ?jdec ?menc (?cfg e) [[0x7b, 0x7d, 0x0a]] 1) = None"
    for e
    by (rule c) (simp add: converts_def)
  have c2: "fst (convert_records always_writes ?jdec ?menc (?cfg e)
      [[0x7b, 0x7d, 0x0a], [0x31]] 1) = None" for e
    by (rule c) (simp add: converts_def)
  note t = processFile_status [where ls = "[[0x7b, 0x7d]]" and tail = "[0x31]"
      and jdec = ?jdec and menc = ?menc and fw = always_writes]
  have a: "fst (processFile always_writes ?jdec ?menc (?cfg (OtherError ''read failed''))) = Inr 2"
    using t [where cfg = "?cfg (OtherError ''read failed'')" and e = "OtherError ''read failed''",
        THEN conjunct2, THEN conjunct1] c1 [of "OtherError ''read failed''"]
    by (simp add: terminated_lines_def newline_def)
  have b: "main always_writes ?jdec ?menc (Inr (?cfg (OtherError ''read failed''))) = Exit 2"
    using t [where cfg = "?cfg (OtherError ''read failed'')" and e = "OtherError ''read failed''",
        THEN conjunct2, THEN conjunct2, THEN conjunct2] a
    by (simp add: terminated_lines_def newline_def)
  have d: "fst (processFile always_writes ?jdec ?menc (?cfg EOF)) = Inr 0"
    using t [where cfg = "?cfg EOF" and e = EOF, THEN conjunct1] c2 [of EOF]
    by (simp add: terminated_lines_def newline_def)
  from a b d show ?thesis by simp
qed

section \<open>Properties of the decode direction\<close>

subsection \<open>Facts about the loop of \<open>processFile\<close>\<close>

lemma msgpackParseBench_loop_ends:
  "decoder st = (Inl err, st') \<Longrightarrow>
   msgpackParseBench_loop decoder decodeSlice st k = Some (Inr k)"
  by (subst msgpackParseBench_loop.simps) simp

lemma msgpackParseBench_loop_counted:
  assumes "decoder st = (Inr r, st')" and "counted_frame decodeSlice r"
  shows "msgpackParseBench_loop decoder decodeSlice st k =
           msgpackParseBench_loop decoder decodeSlice st' (k + 1)"
  using assms
  by (subst msgpackParseBench_loop.simps)
     (auto simp: counted_frame_def split: iface.splits sum.splits prod.splits option.splits)

lemma msgpackParseBench_loop_rejected_payload:
  assumes "decoder st = (Inr (VBytes val), st')"
    and "DecodeMsgpackBinArrayHeader val = Inr (headerSz, payloadSz, totalSz, None)"
    and "slice_from val headerSz = Inr payload" and "decodeSlice payload = Inl err"
  shows "msgpackParseBench_loop decoder decodeSlice st k =
           msgpackParseBench_loop decoder decodeSlice st' k"
  using assms by (subst msgpackParseBench_loop.simps) simp

lemma msgpackParseBench_loop_unexpected:
  assumes "decoder st = (Inr r, st')" and "\<forall>val. r \<noteq> VBytes val"
  shows "msgpackParseBench_loop decoder decodeSlice st k = Some (Inl UnexpectedType)"
  using assms by (subst msgpackParseBench_loop.simps) (simp split: iface.splits)

lemma msgpackParseBench_loop_counts:
  assumes "stream_yields decoder st rs err" and "\<forall>r \<in> set rs. counted_frame decodeSlice r"
  shows "msgpackParseBench_loop decoder decodeSlice st k = Some (Inr (k + int (length rs)))"
  using assms
proof (induction arbitrary: k rule: stream_yields.induct)
  case (stream_ends st err st')
  then show ?case by (simp add: msgpackParseBench_loop_ends)
next
  case (stream_next st r st' rs err)
  from stream_next.prems have r: "counted_frame decodeSlice r"
    and rs: "\<forall>r \<in> set rs. counted_frame decodeSlice r" by simp_all
  have "msgpackParseBench_loop decoder decodeSlice st k =
      msgpackParseBench_loop decoder decodeSlice st' (k + 1)"
    using stream_next.hyps(1) r by (rule msgpackParseBench_loop_counted)
  also have "\<dots> = Some (Inr (k + 1 + int (length rs)))"
    using rs by (rule stream_next.IH)
  finally show ?case by simp
qed

lemma stream_yields_replay:
  "stream_yields replay (map Inr rs @ Inl err # rest) rs err"
proof (induction rs)
  case Nil
  have "replay (Inl err # rest) = (Inl err, rest)" by (simp add: replay_def)
  then show ?case by (simp add: stream_ends)
next
  case (Cons r rs)
  have "replay (map Inr (r # rs) @ Inl err # rest) = (Inr r, map Inr rs @ Inl err # rest)"
    by (simp add: replay_def)
  then show ?case using Cons.IH by (rule stream_next)
qed

lemma counted_frame_map: "counted_frame (Inr \<circ> VBytes) (VBytes [0x81, 0xa1, 0x61, 0x01])"
  by (simp add: counted_frame_def Decode_other slice_from_def)

lemma msgpackParseBench_loop_reaches:
  assumes "stream_reaches decoder st rs st'" and "\<forall>r \<in> set rs. counted_frame decodeSlice r"
  shows "msgpackParseBench_loop decoder decodeSlice st k =
           msgpackParseBench_loop decoder decodeSlice st' (k + int (length rs))"
  using assms
proof (induction arbitrary: k rule: stream_reaches.induct)
  case (reaches_here st)
  show ?case by simp
next
  case (reaches_next st r st1 rs st')
  from reaches_next.prems have r: "counted_frame decodeSlice r"
    and rs: "\<forall>r \<in> set rs. counted_frame decodeSlice r" by simp_all
  have "msgpackParseBench_loop decoder decodeSlice st k =
      msgpackParseBench_loop decoder decodeSlice st1 (k + 1)"
    using reaches_next.hyps(1) r by (rule msgpackParseBench_loop_counted)
  also have "\<dots> = msgpackParseBench_loop decoder decodeSlice st' (k + 1 + int (length rs))"
    using rs by (rule reaches_next.IH)
  finally show ?case by (simp add: add.assoc)
qed

lemma msgpackParseBench_loop_panics:
  assumes "stream_reaches decoder st rs st'" and "\<forall>r \<in> set rs. counted_frame decodeSlice r"
    and "decoder st' = (Inr r, st'')" and "\<forall>val. r \<noteq> VBytes val"
  shows "msgpackParseBench_loop decoder decodeSlice st k = Some (Inl UnexpectedType)"
proof -
  have "msgpackParseBench_loop decoder decodeSlice st k =
      msgpackParseBench_loop decoder decodeSlice st' (k + int (length rs))"
    using assms(1,2) by (rule msgpackParseBench_loop_reaches)
  also have "\<dots> = Some (Inl UnexpectedType)"
    using assms(3,4) by (rule msgpackParseBench_loop_unexpected)
  finally show ?thesis .
qed

lemma stream_reaches_replay: "stream_reaches replay (map Inr rs @ rest) rs rest"
proof (induction rs)
  case Nil
  show ?case by (simp add: reaches_here)
next
  case (Cons r rs)
  have "replay (map Inr (r # rs) @ rest) = (Inr r, map Inr rs @ rest)"
    by (simp add: replay_def)
  then show ?case using Cons.IH by (rule reaches_next)
qed

subsection \<open>The outcome of a decode run\<close>

text \<open>
  Claim C8 says that every malformed frame ends the decode run with the count of decoded
  frames reported and a non-zero outcome. On a stream of one well-formed frame followed by
  a frame on which the stream decoder fails with an unexpected end of input,
  \<open>processFile\<close> reports one frame and returns 0, and \<open>main\<close> exits with status 0:
  \<open>return 0\<close> is the only \<open>return\<close> of \<open>processFile\<close>. On a stream of one well-formed
  frame followed by an object that is not a byte array, \<open>processFile\<close> panics in the
  \<open>default\<close> case of the \<open>switch\<close>, before the statement that prints the count: the run
  ends with the panic and no count.
\<close>

theorem msgpackParseBench_malformed_counterexample:
  "msgpackParseBench_processFile replay (Inr \<circ> VBytes)
      [Inr (VBytes [0x81, 0xa1, 0x61, 0x01]), Inl (OtherError ''unexpected EOF'')]
     = Some (Inr (0, 1))
   \<and> msgpackParseBench_main replay (Inr \<circ> VBytes)
      (Inr [Inr (VBytes [0x81, 0xa1, 0x61, 0x01]), Inl (OtherError ''unexpected EOF'')])
     = Some (Exit 0)
   \<and> msgpackParseBench_processFile replay (Inr \<circ> VBytes)
      [Inr (VBytes [0x81, 0xa1, 0x61, 0x01]), Inr (VInt 7)]
     = Some (Inl UnexpectedType)"
proof -
  have y: "stream_yields replay
      (map Inr [VBytes [0x81, 0xa1, 0x61, 0x01]] @ Inl (OtherError ''unexpected EOF'') # [])
      [VBytes [0x81, 0xa1, 0x61, 0x01]] (OtherError ''unexpected EOF'')"
    by (rule stream_yields_replay)
  have c: "\<forall>r \<in> set [VBytes [0x81, 0xa1, 0x61, 0x01]]. counted_frame (Inr \<circ> VBytes) r"
    using counted_frame_map by simp
  have a: "msgpackParseBench_loop replay (Inr \<circ> VBytes)
      [Inr (VBytes [0x81, 0xa1, 0x61, 0x01]), Inl (OtherError ''unexpected EOF'')] 0 =
      Some (Inr 1)"
    using msgpackParseBench_loop_counts [OF y c, of 0] by simp
  have s: "stream_reaches replay (map Inr [VBytes [0x81, 0xa1, 0x61, 0x01]] @ [Inr (VInt 7)])
      [VBytes [0x81, 0xa1, 0x61, 0x01]] [Inr (VInt 7)]"
    by (rule stream_reaches_replay)
  have d: "replay [Inr (VInt 7)] = (Inr (VInt 7), [])" by (simp add: replay_def)
  have n: "\<forall>val. VInt 7 \<noteq> VBytes val" by simp
  have b: "msgpackParseBench_loop replay (Inr \<circ> VBytes)
      [Inr (VBytes [0x81, 0xa1, 0x61, 0x01]), Inr (VInt 7)] 0 = Some (Inl UnexpectedType)"
    using msgpackParseBench_loop_panics [OF s c d n, of 0] by simp
  from a b show ?thesis
    by (simp add: msgpackParseBench_processFile_def msgpackParseBench_main_def)
qed

text \<open>
  Claim C8, amended. Take an input stream whose objects \<open>rs\<close> before the failing frame
  are all counted frames. When the stream decoder returns an error at that frame, be it a
  truncated header or a truncated payload or the clean end of the stream at a frame
  boundary, the run stops there, reports the number of frames decoded before it, and
  \<open>processFile\<close> returns 0, so that the process exits with status 0 in both cases. When
  the frame has an unrecognized tag, that is, the stream decoder returns an object that is
  not a byte array, the run aborts at that frame with the panic of the \<open>default\<close> case,
  a non-zero outcome, and the count is not printed.
\<close>

theorem msgpackParseBench_processFile_status:
  assumes "\<forall>r \<in> set rs. counted_frame decodeSlice r"
  shows "(stream_yields decoder st rs err \<longrightarrow>
            msgpackParseBench_processFile decoder decodeSlice st = Some (Inr (0, int (length rs)))
          \<and> msgpackParseBench_main decoder decodeSlice (Inr st) = Some (Exit 0))
       \<and> (stream_reaches decoder st rs st' \<and> decoder st' = (Inr r, st'')
            \<and> (\<forall>val. r \<noteq> VBytes val) \<longrightarrow>
            msgpackParseBench_processFile decoder decodeSlice st = Some (Inl UnexpectedType)
          \<and> msgpackParseBench_main decoder decodeSlice (Inr st) = Some (Abort UnexpectedType))"
proof (intro conjI impI)
  assume "stream_yields decoder st rs err"
  then have l: "msgpackParseBench_loop decoder decodeSlice st 0 = Some (Inr (0 + int (length rs)))"
    using assms by (rule msgpackParseBench_loop_counts)
  then show "msgpackParseBench_processFile decoder decodeSlice st =
      Some (Inr (0, int (length rs)))"
    by (simp add: msgpackParseBench_processFile_def)
  with l show "msgpackParseBench_main decoder decodeSlice (Inr st) = Some (Exit 0)"
    by (simp add: msgpackParseBench_main_def)
next
  assume h: "stream_reaches decoder st rs st' \<and> decoder st' = (Inr r, st'')
      \<and> (\<forall>val. r \<noteq> VBytes val)"
  then have "msgpackParseBench_loop decoder decodeSlice st 0 = Some (Inl UnexpectedType)"
    using assms by (blast intro: msgpackParseBench_loop_panics)
  then show p: "msgpackParseBench_processFile decoder decodeSlice st = Some (Inl UnexpectedType)"
    by (simp add: msgpackParseBench_processFile_def)
  then show "msgpackParseBench_main decoder decodeSlice (Inr st) = Some (Abort UnexpectedType)"
    by (simp add: msgpackParseBench_main_def)
qed

theorem msgpackParseBench_processFile_status_witness:
  "msgpackParseBench_processFile replay (Inr \<circ> VBytes)
      [Inr (VBytes [0x81, 0xa1, 0x61, 0x01]), Inr (VBytes [0x81, 0xa1, 0x61, 0x01])]
     = Some (Inr (0, 2))
   \<and> msgpackParseBench_main replay (Inr \<circ> VBytes)
      (Inr [Inr (VBytes [0x81, 0xa1, 0x61, 0x01]), Inr (VBytes [0x81, 0xa1, 0x61, 0x01])])
     = Some (Exit 0)
   \<and> msgpackParseBench_main replay (Inr \<circ> VBytes)
      (Inr [Inr (VBytes [0x81, 0xa1, 0x61, 0x01]), Inl (OtherError ''truncated'')])
     = Some (Exit 0)
   \<and> msgpackParseBench_main replay (Inr \<circ> VBytes)
      (Inr [Inr (VBytes [0x81, 0xa1, 0x61, 0x01]), Inr (VString ''a''), Inr (VBytes [0xc0])])
     = Some (Abort UnexpectedType)"
proof -
  let ?f = "VBytes [0x81, 0xa1, 0x61, 0x01]"
  have e: "replay [] = (Inl EOF, [])" by (simp add: replay_def)
  have y0: "stream_yields replay [] [] EOF" using e by (rule stream_ends)
  have y1: "stream_yields replay [Inr ?f] [?f] EOF"
    by (rule stream_next [OF _ y0]) (simp add: replay_def)
  have y2: "stream_yields replay [Inr ?f, Inr ?f] [?f, ?f] EOF"
    by (rule stream_next [OF _ y1]) (simp add: replay_def)
  have c2: "\<forall>r \<in> set [?f, ?f]. counted_frame (Inr \<circ> VBytes) r"
    using counted_frame_map by simp
  have z: "stream_yields replay [Inr ?f, Inl (OtherError ''truncated'')] [?f]
      (OtherError ''truncated'')"
    using stream_yields_replay [of "[?f]" "OtherError ''truncated''" "[]"] by simp
  have c1: "\<forall>r \<in> set [?f]. counted_frame (Inr \<circ> VBytes) r"
    using counted_frame_map by simp
  have s: "stream_reaches replay [Inr ?f, Inr (VString ''a''), Inr (VBytes [0xc0])] [?f]
      [Inr (VString ''a''), Inr (VBytes [0xc0])]"
    using stream_reaches_replay [of "[?f]" "[Inr (VString ''a''), Inr (VBytes [0xc0])]"] by simp
  have d: "replay [Inr (VString ''a''), Inr (VBytes [0xc0])] =
      (Inr (VString ''a''), [Inr (VBytes [0xc0])])" by (simp add: replay_def)
  have n: "\<forall>val. VString ''a'' \<noteq> VBytes val" by simp
  have a: "msgpackParseBench_processFile replay (Inr \<circ> VBytes) [Inr ?f, Inr ?f]
        = Some (Inr (0, 2))
      \<and> msgpackParseBench_main replay (Inr \<circ> VBytes) (Inr [Inr ?f, Inr ?f]) = Some (Exit 0)"
    using msgpackParseBench_processFile_status [OF c2, THEN conjunct1, rule_format, OF y2]
    by simp
  have b: "msgpackParseBench_main replay (Inr \<circ> VBytes)
      (Inr [Inr ?f, Inl (OtherError ''truncated'')]) = Some (Exit 0)"
    using msgpackParseBench_processFile_status [OF c1, THEN conjunct1, rule_format, OF z]
    by simp
  have c: "msgpackParseBench_main replay (Inr \<circ> VBytes)
      (Inr [Inr ?f, Inr (VString ''a''), Inr (VBytes [0xc0])]) = Some (Abort UnexpectedType)"
    using msgpackParseBench_processFile_status [OF c1, THEN conjunct2, rule_format,
        OF conjI [OF s conjI [OF d n]]]
    by simp
  from a b c show ?thesis by simp
qed

end
